theory Spec2Isabelle
  imports Complex_Main
begin

section \<open>Python values and exceptions\<close>

text \<open>The exceptions the modelled code can raise.\<close>

datatype py_error = KeyError | IndexError | TypeError | AttributeError | OverflowError

text \<open>Sequencing of fallible steps: the first exception raised is the result.\<close>

definition and_then :: "py_error + 'a \<Rightarrow> ('a \<Rightarrow> py_error + 'b) \<Rightarrow> py_error + 'b" where
  "and_then r f = (case r of Inl e \<Rightarrow> Inl e | Inr v \<Rightarrow> f v)"

subsection \<open>Floats\<close>

text \<open>
  A Python \<^verbatim>\<open>float\<close> is an IEEE 754 binary64 value: a finite number, an infinity or
  NaN.  \<open>Finite x\<close> stands for the finite double of value \<open>x\<close>; the sign of zero is not
  kept, no operation below depends on it.
\<close>

datatype pyfloat = Finite real | PosInf | NegInf | NaN

text \<open>
  Rounding to nearest, ties to even.  \<open>round_half_even\<close> rounds a real to an
  integer; \<open>ulp_exponent a\<close> is the exponent of the unit in the last place of the
  binade of \<open>a > 0\<close>: 53 significant bits, and the fixed exponent \<open>-1074\<close> in the
  subnormal range; \<open>binary64_round x\<close> is the multiple of that unit nearest to
  \<open>x\<close>, with an unbounded exponent range.
\<close>

definition round_half_even :: "real \<Rightarrow> int" where
  "round_half_even y =
     (if y - of_int \<lfloor>y\<rfloor> < 1 / 2 then \<lfloor>y\<rfloor>
      else if 1 / 2 < y - of_int \<lfloor>y\<rfloor> then \<lfloor>y\<rfloor> + 1
      else if even \<lfloor>y\<rfloor> then \<lfloor>y\<rfloor> else \<lfloor>y\<rfloor> + 1)"

definition ulp_exponent :: "real \<Rightarrow> int" where
  "ulp_exponent a = max (\<lfloor>log 2 a\<rfloor> - 52) (- 1074)"

definition round_pos :: "real \<Rightarrow> real" where
  "round_pos a =
     of_int (round_half_even (a / 2 powr of_int (ulp_exponent a))) * 2 powr of_int (ulp_exponent a)"

definition binary64_round :: "real \<Rightarrow> real" where
  "binary64_round x =
     (if x = 0 then 0 else if 0 < x then round_pos x else - round_pos (- x))"

text \<open>The result of an arithmetic operation: the rounded value, or an infinity on overflow.\<close>

definition float_of_real :: "real \<Rightarrow> pyfloat" where
  "float_of_real x =
     (if 2 ^ 1024 \<le> binary64_round x then PosInf
      else if binary64_round x \<le> - (2 ^ 1024) then NegInf
      else Finite (binary64_round x))"

text \<open>\<^verbatim>\<open>a + b\<close>, \<^verbatim>\<open>a - b\<close> and \<^verbatim>\<open>a <= b\<close> on floats; every comparison with NaN is false.\<close>

fun float_add :: "pyfloat \<Rightarrow> pyfloat \<Rightarrow> pyfloat" where
  "float_add NaN _ = NaN"
| "float_add _ NaN = NaN"
| "float_add PosInf NegInf = NaN"
| "float_add NegInf PosInf = NaN"
| "float_add PosInf _ = PosInf"
| "float_add _ PosInf = PosInf"
| "float_add NegInf _ = NegInf"
| "float_add _ NegInf = NegInf"
| "float_add (Finite a) (Finite b) = float_of_real (a + b)"

fun float_sub :: "pyfloat \<Rightarrow> pyfloat \<Rightarrow> pyfloat" where
  "float_sub NaN _ = NaN"
| "float_sub _ NaN = NaN"
| "float_sub PosInf PosInf = NaN"
| "float_sub NegInf NegInf = NaN"
| "float_sub PosInf _ = PosInf"
| "float_sub _ PosInf = NegInf"
| "float_sub NegInf _ = NegInf"
| "float_sub _ NegInf = PosInf"
| "float_sub (Finite a) (Finite b) = float_of_real (a - b)"

fun float_le :: "pyfloat \<Rightarrow> pyfloat \<Rightarrow> bool" where
  "float_le NaN _ = False"
| "float_le _ NaN = False"
| "float_le NegInf _ = True"
| "float_le _ PosInf = True"
| "float_le PosInf _ = False"
| "float_le _ NegInf = False"
| "float_le (Finite a) (Finite b) = (a \<le> b)"

text \<open>
  The conversion of an \<^verbatim>\<open>int\<close> operand in mixed arithmetic: correctly rounded,
  and an OverflowError when the rounded value is outside the range of a double.
\<close>

definition int_to_float :: "int \<Rightarrow> py_error + pyfloat" where
  "int_to_float n =
     (if 2 ^ 1024 \<le> \<bar>binary64_round (of_int n)\<bar> then Inl OverflowError
      else Inr (Finite (binary64_round (of_int n))))"

subsection \<open>Objects\<close>

text \<open>
  The objects that can be passed as a diameter: what \<^verbatim>\<open>json.load\<close> delivers for a
  number, a boolean, \<^verbatim>\<open>null\<close>, a string, and a list or a dict (\<open>PyOther\<close>, whose
  content plays no role).  \<^verbatim>\<open>bool\<close> is a subclass of \<^verbatim>\<open>int\<close>.
\<close>

datatype pyval = PyInt int | PyFloat pyfloat | PyBool bool | PyNone | PyStr string | PyOther

text \<open>
  \<^verbatim>\<open>v <= k\<close> for an integer literal \<^verbatim>\<open>k\<close>: Python compares an \<^verbatim>\<open>int\<close> or a
  \<^verbatim>\<open>float\<close> with it exactly and raises a TypeError for \<^verbatim>\<open>None\<close>, \<^verbatim>\<open>str\<close>,
  \<^verbatim>\<open>list\<close> and \<^verbatim>\<open>dict\<close>.
\<close>

fun le_int :: "pyval \<Rightarrow> int \<Rightarrow> py_error + bool" where
  "le_int (PyInt n) k = Inr (n \<le> k)"
| "le_int (PyBool b) k = Inr ((if b then 1 else 0) \<le> k)"
| "le_int (PyFloat f) k = Inr (float_le f (Finite (of_int k)))"
| "le_int _ k = Inl TypeError"

text \<open>\<^verbatim>\<open>v - c\<close> for a float \<^verbatim>\<open>c\<close>: an \<^verbatim>\<open>int\<close> is converted to a float first.\<close>

fun sub_float :: "pyval \<Rightarrow> pyfloat \<Rightarrow> py_error + pyfloat" where
  "sub_float (PyInt n) c = and_then (int_to_float n) (\<lambda>f. Inr (float_sub f c))"
| "sub_float (PyBool b) c = and_then (int_to_float (if b then 1 else 0)) (\<lambda>f. Inr (float_sub f c))"
| "sub_float (PyFloat f) c = Inr (float_sub f c)"
| "sub_float _ c = Inl TypeError"

section \<open>Geometry policy\<close>

text \<open>\<^verbatim>\<open>calculate_protection_radius(diameter)\<close> of \<^verbatim>\<open>main.py\<close>, lines 21-29.\<close>

definition calculate_protection_radius :: "pyval \<Rightarrow> py_error + pyfloat" where
  "calculate_protection_radius diameter =
     and_then (le_int diameter 5) (\<lambda>small.
       if small then Inr (Finite 5.0)
       else and_then (sub_float diameter (Finite 5.0)) (\<lambda>over.
              Inr (float_add (Finite 5.0) over)))"

section \<open>Feature normalizer\<close>

text \<open>
  The value \<^verbatim>\<open>json.load\<close> returns.  A JSON object is kept as an association
  list read with \<^const>\<open>map_of\<close>; integers and floats are kept apart as Python does.
\<close>

datatype json =
    JNull
  | JBool bool
  | JInt int
  | JFloat real
  | JStr string
  | JArr "json list"
  | JObj "(string \<times> json) list"

text \<open>\<^verbatim>\<open>v[k]\<close> for a string key \<^verbatim>\<open>k\<close>: only a dict can be subscripted by a string.\<close>

fun subscript_key :: "json \<Rightarrow> string \<Rightarrow> py_error + json" where
  "subscript_key (JObj kvs) k =
     (case map_of kvs k of None \<Rightarrow> Inl KeyError | Some v \<Rightarrow> Inr v)"
| "subscript_key _ k = Inl TypeError"

text \<open>
  \<^verbatim>\<open>v[i]\<close> for a non-negative integer literal \<^verbatim>\<open>i\<close>: a list or a string is
  indexed (IndexError out of range), a dict parsed from JSON has only string keys
  (KeyError), anything else is not subscriptable.
\<close>

fun subscript_index :: "json \<Rightarrow> nat \<Rightarrow> py_error + json" where
  "subscript_index (JArr xs) i = (if i < length xs then Inr (xs ! i) else Inl IndexError)"
| "subscript_index (JStr s) i = (if i < length s then Inr (JStr [s ! i]) else Inl IndexError)"
| "subscript_index (JObj kvs) i = Inl KeyError"
| "subscript_index _ i = Inl TypeError"

text \<open>\<^verbatim>\<open>v.get(k, default)\<close>: only a dict has the method.\<close>

fun dict_get :: "json \<Rightarrow> string \<Rightarrow> json \<Rightarrow> py_error + json" where
  "dict_get (JObj kvs) k dflt =
     (case map_of kvs k of None \<Rightarrow> Inr dflt | Some v \<Rightarrow> Inr v)"
| "dict_get _ k dflt = Inl AttributeError"

text \<open>\<^verbatim>\<open>for x in v\<close>: the elements of a list, the characters of a string, the keys of a dict.\<close>

fun iterate :: "json \<Rightarrow> py_error + json list" where
  "iterate (JArr xs) = Inr xs"
| "iterate (JStr s) = Inr (map (\<lambda>c. JStr [c]) s)"
| "iterate (JObj kvs) = Inr (map (\<lambda>kv. JStr (fst kv)) kvs)"
| "iterate _ = Inl TypeError"

text \<open>
  \<^verbatim>\<open>props.get(k1, props.get(k2, default))\<close>: Python evaluates the inner call
  first (it is an argument of the outer one), then the outer call.
\<close>

definition get2 :: "json \<Rightarrow> string \<Rightarrow> string \<Rightarrow> json \<Rightarrow> py_error + json" where
  "get2 props k1 k2 dflt = and_then (dict_get props k2 dflt) (\<lambda>inner. dict_get props k1 inner)"

record tree_record =
  longitude :: json
  latitude :: json
  diameter :: json
  species_common :: json
  species_botanical :: json
  status :: json
  site_id :: json
  object_id :: json

text \<open>The body of the loop of \<^verbatim>\<open>process_geojson_data\<close> (lines 40-53), for one feature.\<close>

definition normalize_feature :: "json \<Rightarrow> py_error + tree_record" where
  "normalize_feature feature =
     and_then (subscript_key feature ''properties'') (\<lambda>props.
     and_then (subscript_key feature ''geometry'') (\<lambda>geometry.
     and_then (subscript_key geometry ''coordinates'') (\<lambda>coords.
     and_then (subscript_index coords 0) (\<lambda>lon.
     and_then (subscript_index coords 1) (\<lambda>lat.
     and_then (get2 props ''DIAMETER'' ''diameter'' (JInt 0)) (\<lambda>dia.
     and_then (get2 props ''SPP_COM'' ''species_common'' (JStr ''Unknown'')) (\<lambda>com.
     and_then (get2 props ''SPP_BOT'' ''species_botanical'' (JStr ''Unknown'')) (\<lambda>bot.
     and_then (get2 props ''STATUS'' ''status'' (JStr ''Unknown'')) (\<lambda>sta.
     and_then (get2 props ''site_id'' ''OBJECTID'' (JStr ''Unknown'')) (\<lambda>sid.
     and_then (get2 props ''OBJECTID'' ''object_id'' JNull) (\<lambda>oid.
       Inr \<lparr> longitude = lon, latitude = lat, diameter = dia, species_common = com,
             species_botanical = bot, status = sta, site_id = sid, object_id = oid \<rparr>
     )))))))))))"

text \<open>
  The loop \<^verbatim>\<open>for feature in geojson_data['features']\<close>: an exception raised for
  one feature leaves the function, no row is returned.
\<close>

fun normalize_all :: "json list \<Rightarrow> tree_record list \<Rightarrow> py_error + tree_record list" where
  "normalize_all [] features = Inr features"
| "normalize_all (feature # rest) features =
     and_then (normalize_feature feature) (\<lambda>r. normalize_all rest (features @ [r]))"

definition process_geojson_data :: "json \<Rightarrow> py_error + tree_record list" where
  "process_geojson_data geojson_data =
     and_then (subscript_key geojson_data ''features'') (\<lambda>fs.
     and_then (iterate fs) (\<lambda>items. normalize_all items []))"

section \<open>Paginated ArcGIS client\<close>

text \<open>
  What a \<^verbatim>\<open>requests.get\<close> followed by \<^verbatim>\<open>raise_for_status\<close> and
  \<^verbatim>\<open>response.json()\<close> can do inside the \<^verbatim>\<open>try\<close> block: raise a
  \<^verbatim>\<open>RequestException\<close> (network error, timeout, non-2xx status), raise another
  exception while the body is decoded or used, or deliver the decoded body.
\<close>

datatype 'a response = RequestException | OtherException | Json 'a

text \<open>
  The query parameters that vary.  \<^verbatim>\<open>returnIdsOnly\<close>, \<^verbatim>\<open>returnGeometry\<close> and
  \<^verbatim>\<open>f\<close> are constants of the source.  The comma-joined \<^verbatim>\<open>objectIds\<close> string is
  kept as the list of identifiers it renders.
\<close>

record id_params =
  where_clause :: string
  resultOffset :: nat
  resultRecordCount :: nat

record feature_params =
  objectIds :: "int list"
  outFields :: string

text \<open>
  The remote service.  Its first argument is the number of requests the call has
  issued before this one, so that a service may answer the same query differently
  over time.  The decoded body of an identifier query is \<open>Some ids\<close> when the key
  \<^verbatim>\<open>objectIds\<close> is present with a list, \<open>None\<close> when it is absent or null; the body
  of a feature query is \<open>Some fs\<close> when the key \<^verbatim>\<open>features\<close> is present.
\<close>

type_synonym id_service = "nat \<Rightarrow> id_params \<Rightarrow> int list option response"
type_synonym 'f feature_service = "nat \<Rightarrow> feature_params \<Rightarrow> 'f list option response"

datatype message =
    FetchIdsError nat
  | ProcessIdsError
  | FetchFeaturesError nat
  | ProcessFeaturesError nat
  | NoObjectIdsFound
  | FeaturesLoaded nat
  | FetchFailed

text \<open>
  The effects of the client that the outside can observe, in the order they happen:
  HTTP requests, \<^verbatim>\<open>time.sleep\<close>, updates of the progress bar, \<^verbatim>\<open>st.error\<close>,
  \<^verbatim>\<open>st.warning\<close> and \<^verbatim>\<open>st.success\<close>.  The status texts are left out.
\<close>

datatype event =
    GetIds id_params
  | GetFeatures feature_params
  | Sleep nat
  | Progress real
  | StError message
  | StWarning message
  | StSuccess message

definition OBJECT_ID_BATCH_SIZE :: nat where
  "OBJECT_ID_BATCH_SIZE = 1000"

definition FEATURE_BATCH_SIZE :: nat where
  "FEATURE_BATCH_SIZE = 100"

text \<open>The courtesy delay: 5 seconds after every tenth batch, 1 second otherwise.\<close>

definition courtesy_delay :: "nat \<Rightarrow> nat" where
  "courtesy_delay n = (if n mod 10 = 0 then 5 else 1)"

subsection \<open>\<^verbatim>\<open>get_object_ids\<close>\<close>

record ids_state =
  all_object_ids :: "int list"
  offset :: nat
  batch_count :: nat
  issued :: nat
  trace :: "event list"

text \<open>
  The \<^verbatim>\<open>while True\<close> loop of lines 109-149.  It has no bound of its own, so the
  model is a partial function: \<open>None\<close> is a loop that never leaves.
\<close>

partial_function (option) get_object_ids_loop ::
  "id_service \<Rightarrow> string \<Rightarrow> nat \<Rightarrow> ids_state \<Rightarrow> (int list \<times> event list) option" where
  "get_object_ids_loop service wc batch_size s =
     (case service (issued s)
             \<lparr> where_clause = wc, resultOffset = offset s, resultRecordCount = batch_size \<rparr> of
        RequestException \<Rightarrow>
          Some (all_object_ids s,
                trace s @ [GetIds \<lparr> where_clause = wc, resultOffset = offset s,
                                   resultRecordCount = batch_size \<rparr>,
                           StError (FetchIdsError (offset s))])
      | OtherException \<Rightarrow>
          Some (all_object_ids s,
                trace s @ [GetIds \<lparr> where_clause = wc, resultOffset = offset s,
                                   resultRecordCount = batch_size \<rparr>,
                           StError ProcessIdsError])
      | Json data \<Rightarrow>
          (case data of
             None \<Rightarrow>
               Some (all_object_ids s,
                     trace s @ [GetIds \<lparr> where_clause = wc, resultOffset = offset s,
                                        resultRecordCount = batch_size \<rparr>])
           | Some batch_ids \<Rightarrow>
               if batch_ids = [] then
                 Some (all_object_ids s,
                       trace s @ [GetIds \<lparr> where_clause = wc, resultOffset = offset s,
                                          resultRecordCount = batch_size \<rparr>])
               else if length batch_ids < batch_size then
                 Some (all_object_ids s @ batch_ids,
                       trace s @ [GetIds \<lparr> where_clause = wc, resultOffset = offset s,
                                          resultRecordCount = batch_size \<rparr>])
               else
                 get_object_ids_loop service wc batch_size
                   \<lparr> all_object_ids = all_object_ids s @ batch_ids,
                     offset = offset s + length batch_ids,
                     batch_count = batch_count s + 1,
                     issued = issued s + 1,
                     trace = trace s @
                       [GetIds \<lparr> where_clause = wc, resultOffset = offset s,
                                 resultRecordCount = batch_size \<rparr>,
                        Sleep (courtesy_delay (batch_count s + 1))] \<rparr>))"

declare get_object_ids_loop.simps [code]

definition get_object_ids :: "id_service \<Rightarrow> string \<Rightarrow> nat \<Rightarrow> (int list \<times> event list) option" where
  "get_object_ids service wc batch_size =
     get_object_ids_loop service wc batch_size
       \<lparr> all_object_ids = [], offset = 0, batch_count = 0, issued = 0, trace = [] \<rparr>"

text \<open>The offsets of the identifier requests of a trace, in the order they were issued.\<close>

fun id_request_offsets :: "event list \<Rightarrow> nat list" where
  "id_request_offsets [] = []"
| "id_request_offsets (GetIds p # es) = resultOffset p # id_request_offsets es"
| "id_request_offsets (_ # es) = id_request_offsets es"

fun reported_errors :: "event list \<Rightarrow> message list" where
  "reported_errors [] = []"
| "reported_errors (StError m # es) = m # reported_errors es"
| "reported_errors (_ # es) = reported_errors es"

text \<open>
  The mock service of the pagination property: it holds the identifiers \<open>ids\<close> and
  answers a query with the page that starts at the offset and has at most
  \<^verbatim>\<open>resultRecordCount\<close> identifiers; past the end the page is empty.
\<close>

definition paged_service :: "int list \<Rightarrow> id_service" where
  "paged_service ids = (\<lambda>k p. Json (Some (take (resultRecordCount p) (drop (resultOffset p) ids))))"

text \<open>The same service with a transport failure at the request number \<open>n\<close>.\<close>

definition failing_service :: "int list \<Rightarrow> nat \<Rightarrow> id_service" where
  "failing_service ids n = (\<lambda>k p. if k = n then RequestException else paged_service ids k p)"

subsection \<open>\<^verbatim>\<open>get_features_by_ids\<close>\<close>

text \<open>
  \<^verbatim>\<open>range(start, stop, step)\<close> for a positive step.  The only call passes the
  constant \<^verbatim>\<open>FEATURE_BATCH_SIZE\<close>; the zero step that Python rejects gives the
  empty list here.
\<close>

function py_range :: "nat \<Rightarrow> nat \<Rightarrow> nat \<Rightarrow> nat list" where
  "py_range start stop step =
     (if step = 0 \<or> stop \<le> start then [] else start # py_range (start + step) stop step)"
  by pat_completeness auto
termination
  by (relation "measure (\<lambda>(start, stop, step). stop - start)") auto

declare py_range.simps [simp del]

text \<open>The slice \<^verbatim>\<open>xs[i:j]\<close> for \<open>0 \<le> i\<close>: it is cut at the end of the list.\<close>

definition slice :: "'a list \<Rightarrow> nat \<Rightarrow> nat \<Rightarrow> 'a list" where
  "slice xs i j = take (j - i) (drop i xs)"

definition id_chunks :: "int list \<Rightarrow> int list list" where
  "id_chunks object_ids =
     map (\<lambda>i. slice object_ids i (i + FEATURE_BATCH_SIZE))
         (py_range 0 (length object_ids) FEATURE_BATCH_SIZE)"

text \<open>
  The dict \<^verbatim>\<open>{'type': 'FeatureCollection', 'features': all_features}\<close>; the
  features themselves are opaque to the client.
\<close>

record 'f feature_collection =
  fc_type :: string
  fc_features :: "'f list"

text \<open>
  One round of the \<^verbatim>\<open>for i, chunk in enumerate(id_chunks)\<close> loop (lines 165-200);
  \<open>n\<close> is \<^verbatim>\<open>len(id_chunks)\<close>.  Both handlers end with \<^verbatim>\<open>continue\<close>.  The
  division of the progress update is inside the \<^verbatim>\<open>try\<close> block, after the
  features were appended: a ZeroDivisionError there would be caught by
  \<^verbatim>\<open>except Exception\<close>.
\<close>

definition fetch_chunk ::
  "'f feature_service \<Rightarrow> string \<Rightarrow> nat \<Rightarrow> nat \<times> int list \<Rightarrow>
     'f list \<times> event list \<Rightarrow> 'f list \<times> event list" where
  "fetch_chunk service out_fields n ic st =
     (case ic of (i, chunk) \<Rightarrow>
      case st of (all_features, tr) \<Rightarrow>
      (case service i \<lparr> objectIds = chunk, outFields = out_fields \<rparr> of
         RequestException \<Rightarrow>
           (all_features,
            tr @ [GetFeatures \<lparr> objectIds = chunk, outFields = out_fields \<rparr>,
                  StError (FetchFeaturesError (i + 1))])
       | OtherException \<Rightarrow>
           (all_features,
            tr @ [GetFeatures \<lparr> objectIds = chunk, outFields = out_fields \<rparr>,
                  StError (ProcessFeaturesError (i + 1))])
       | Json chunk_data \<Rightarrow>
           (if n = 0 then
              ((case chunk_data of None \<Rightarrow> all_features | Some fs \<Rightarrow> all_features @ fs),
               tr @ [GetFeatures \<lparr> objectIds = chunk, outFields = out_fields \<rparr>,
                     StError (ProcessFeaturesError (i + 1))])
            else
              ((case chunk_data of None \<Rightarrow> all_features | Some fs \<Rightarrow> all_features @ fs),
               tr @ [GetFeatures \<lparr> objectIds = chunk, outFields = out_fields \<rparr>,
                     Progress (real (i + 1) / real n),
                     Sleep (courtesy_delay (i + 1))]))))"

fun chunk_loop ::
  "'f feature_service \<Rightarrow> string \<Rightarrow> nat \<Rightarrow> (nat \<times> int list) list \<Rightarrow>
     'f list \<times> event list \<Rightarrow> 'f list \<times> event list" where
  "chunk_loop service out_fields n [] st = st"
| "chunk_loop service out_fields n (ic # rest) st =
     chunk_loop service out_fields n rest (fetch_chunk service out_fields n ic st)"

definition get_features_by_ids ::
  "'f feature_service \<Rightarrow> int list \<Rightarrow> string \<Rightarrow> 'f feature_collection \<times> event list" where
  "get_features_by_ids service object_ids out_fields =
     (case chunk_loop service out_fields (length (id_chunks object_ids))
             (enumerate 0 (id_chunks object_ids)) ([], []) of
        (all_features, tr) \<Rightarrow>
          (\<lparr> fc_type = ''FeatureCollection'', fc_features = all_features \<rparr>, tr))"

text \<open>The identifier lists of the feature requests of a trace, in the order they were issued.\<close>

fun feature_requests :: "event list \<Rightarrow> int list list" where
  "feature_requests [] = []"
| "feature_requests (GetFeatures p # es) = objectIds p # feature_requests es"
| "feature_requests (_ # es) = feature_requests es"

text \<open>
  The mock service of the failure property: the request for a chunk whose index is
  in \<open>failing\<close> raises a transport failure, every other request is answered with the
  features \<open>feats chunk\<close> of its identifiers.
\<close>

definition flaky_service :: "nat set \<Rightarrow> (int list \<Rightarrow> 'f list) \<Rightarrow> 'f feature_service" where
  "flaky_service failing feats =
     (\<lambda>i p. if i \<in> failing then RequestException else Json (Some (feats (objectIds p))))"

section \<open>Retrieval orchestration\<close>

text \<open>
  \<^verbatim>\<open>st.session_state\<close>, as far as the handlers use it: the entry
  \<^verbatim>\<open>'geojson_data'\<close>, \<open>None\<close> when the key is absent.
\<close>

record 'f session_state =
  geojson_data_entry :: "'f feature_collection option"

text \<open>
  The handler of the sidebar button (lines 304-336), reached when no collection is
  cached: the local variable \<^verbatim>\<open>geojson_data\<close> is \<^verbatim>\<open>None\<close> on entry.  The result
  is the session state, the value of \<^verbatim>\<open>geojson_data\<close> handed to the processing
  part of the script, and the effects.  \<^verbatim>\<open>get_features_by_ids\<close> always returns a
  non-empty dict with the key \<^verbatim>\<open>features\<close>, so the test of line 323 succeeds.
\<close>

definition load_madison_tree_data ::
  "id_service \<Rightarrow> 'f feature_service \<Rightarrow> 'f session_state \<Rightarrow>
     ('f session_state \<times> 'f feature_collection option \<times> event list) option" where
  "load_madison_tree_data id_service feature_service session =
     (case get_object_ids id_service ''1=1'' OBJECT_ID_BATCH_SIZE of
        None \<Rightarrow> None
      | Some (object_ids, tr1) \<Rightarrow>
          if object_ids = [] then
            Some (session,
                  (case geojson_data_entry session of None \<Rightarrow> None | Some cached \<Rightarrow> Some cached),
                  tr1 @ [StWarning NoObjectIdsFound])
          else
            (case get_features_by_ids feature_service object_ids ''*'' of
               (geojson_data, tr2) \<Rightarrow>
                 Some (session \<lparr> geojson_data_entry := Some geojson_data \<rparr>,
                       Some geojson_data,
                       tr1 @ tr2 @ [StSuccess (FeaturesLoaded (length (fc_features geojson_data)))])))"

text \<open>
  The handler of the button in the expander (lines 251-279), reached when a
  collection is cached: \<^verbatim>\<open>geojson_data\<close> is the cached collection on entry (line
  229).  After a successful fetch \<^verbatim>\<open>st.rerun()\<close> restarts the script, which then
  reads the collection from the session state.
\<close>

definition load_madison_tree_data_alt ::
  "id_service \<Rightarrow> 'f feature_service \<Rightarrow> 'f session_state \<Rightarrow>
     ('f session_state \<times> 'f feature_collection option \<times> event list) option" where
  "load_madison_tree_data_alt id_service feature_service session =
     (case get_object_ids id_service ''1=1'' OBJECT_ID_BATCH_SIZE of
        None \<Rightarrow> None
      | Some (object_ids, tr1) \<Rightarrow>
          if object_ids = [] then
            Some (session, geojson_data_entry session, tr1 @ [StWarning NoObjectIdsFound])
          else
            (case get_features_by_ids feature_service object_ids ''*'' of
               (madison_data, tr2) \<Rightarrow>
                 Some (session \<lparr> geojson_data_entry := Some madison_data \<rparr>,
                       Some madison_data,
                       tr1 @ tr2 @ [StSuccess (FeaturesLoaded (length (fc_features madison_data)))])))"

section \<open>Properties of binary64 rounding\<close>

lemma and_then_Inr [simp]: "and_then (Inr v) f = f v"
  by (simp add: and_then_def)

lemma and_then_Inl [simp]: "and_then (Inl e) f = Inl e"
  by (simp add: and_then_def)

lemma round_half_even_bounds:
  "\<lfloor>y\<rfloor> \<le> round_half_even y \<and> round_half_even y \<le> \<lfloor>y\<rfloor> + 1"
  by (simp add: round_half_even_def)

lemma round_half_even_of_int [simp]: "round_half_even (of_int k) = k"
  by (simp add: round_half_even_def)

lemma round_half_even_mono:
  assumes "y1 \<le> y2"
  shows "round_half_even y1 \<le> round_half_even y2"
proof (cases "\<lfloor>y1\<rfloor> = \<lfloor>y2\<rfloor>")
  case True
  with assms have "y1 - of_int \<lfloor>y1\<rfloor> \<le> y2 - of_int \<lfloor>y2\<rfloor>"
    by simp
  with True show ?thesis
    by (auto simp: round_half_even_def)
next
  case False
  from assms have "\<lfloor>y1\<rfloor> \<le> \<lfloor>y2\<rfloor>"
    by (rule floor_mono)
  with False have "\<lfloor>y1\<rfloor> + 1 \<le> \<lfloor>y2\<rfloor>"
    by simp
  with round_half_even_bounds [of y1] round_half_even_bounds [of y2] show ?thesis
    by linarith
qed

lemma round_half_even_ge: "of_int k \<le> y \<Longrightarrow> k \<le> round_half_even y"
  using round_half_even_mono [of "of_int k" y] by simp

lemma round_half_even_le: "y \<le> of_int k \<Longrightarrow> round_half_even y \<le> k"
  using round_half_even_mono [of y "of_int k"] by simp

lemma floor_log2_bounds:
  assumes "0 < a"
  shows "2 powr of_int \<lfloor>log 2 a\<rfloor> \<le> a" and "a < 2 powr of_int (\<lfloor>log 2 a\<rfloor> + 1)"
proof -
  have "of_int \<lfloor>log 2 a\<rfloor> \<le> log 2 a"
    by simp
  then have "2 powr of_int \<lfloor>log 2 a\<rfloor> \<le> 2 powr log 2 a"
    by simp
  with assms show "2 powr of_int \<lfloor>log 2 a\<rfloor> \<le> a"
    by simp
  have "log 2 a < of_int (\<lfloor>log 2 a\<rfloor> + 1)"
    by linarith
  then have "2 powr log 2 a < 2 powr of_int (\<lfloor>log 2 a\<rfloor> + 1)"
    by simp
  with assms show "a < 2 powr of_int (\<lfloor>log 2 a\<rfloor> + 1)"
    by simp
qed

lemma floor_log2_eqI:
  assumes "2 powr of_int n \<le> a" and "a < 2 powr of_int (n + 1)"
  shows "\<lfloor>log 2 a\<rfloor> = n"
proof -
  have "0 < (2::real) powr of_int n"
    by simp
  with assms(1) have pos: "0 < a"
    by (rule less_le_trans [rotated])
  from assms(1) pos have "of_int n \<le> log 2 a"
    by (simp add: le_log_iff)
  moreover from assms(2) pos have "log 2 a < of_int (n + 1)"
    by (simp add: log_less_iff)
  ultimately show ?thesis
    by linarith
qed

lemma ulp_exponent_mono:
  assumes "0 < a" and "a \<le> b"
  shows "ulp_exponent a \<le> ulp_exponent b"
proof -
  from assms have "log 2 a \<le> log 2 b"
    by simp
  then have "\<lfloor>log 2 a\<rfloor> \<le> \<lfloor>log 2 b\<rfloor>"
    by (rule floor_mono)
  then show ?thesis
    by (simp add: ulp_exponent_def)
qed

lemma powr_int_add: "(2::real) powr of_int (i + j) = 2 powr of_int i * 2 powr of_int j"
  by (simp add: powr_add)

lemma scaled_upper:
  assumes "0 < a"
  shows "a / 2 powr of_int (ulp_exponent a) \<le> 2 ^ 53"
proof -
  let ?l = "\<lfloor>log 2 a\<rfloor>" and ?e = "ulp_exponent a"
  have "?l - 52 \<le> ?e"
    by (simp add: ulp_exponent_def)
  then have "?l + 1 \<le> 53 + ?e"
    by simp
  then have "(2::real) powr of_int (?l + 1) \<le> 2 powr of_int (53 + ?e)"
    by simp
  also have "\<dots> = 2 powr of_int 53 * 2 powr of_int ?e"
    by (rule powr_int_add)
  also have "\<dots> = 2 ^ 53 * 2 powr of_int ?e"
    by simp
  finally have "a \<le> 2 ^ 53 * 2 powr of_int ?e"
    using floor_log2_bounds(2) [OF assms] by simp
  then show ?thesis
    by (simp add: pos_divide_le_eq)
qed

lemma scaled_lower:
  assumes "0 < a" and "- 1074 < ulp_exponent a"
  shows "2 ^ 52 \<le> a / 2 powr of_int (ulp_exponent a)"
proof -
  let ?l = "\<lfloor>log 2 a\<rfloor>" and ?e = "ulp_exponent a"
  from assms(2) have e: "?e = ?l - 52"
    by (simp add: ulp_exponent_def max_def split: if_splits)
  then have "?l = 52 + ?e"
    by simp
  then have "(2::real) powr of_int ?l = 2 powr of_int (52 + ?e)"
    by simp
  also have "\<dots> = 2 powr of_int 52 * 2 powr of_int ?e"
    by (rule powr_int_add)
  also have "\<dots> = 2 ^ 52 * 2 powr of_int ?e"
    by simp
  finally have "2 ^ 52 * 2 powr of_int ?e \<le> a"
    using floor_log2_bounds(1) [OF assms(1)] by simp
  then show ?thesis
    by (simp add: pos_le_divide_eq)
qed

lemma round_pos_nonneg:
  assumes "0 < a"
  shows "0 \<le> round_pos a"
proof -
  have "0 \<le> a / 2 powr of_int (ulp_exponent a)"
    using assms by simp
  then have "0 \<le> round_half_even (a / 2 powr of_int (ulp_exponent a))"
    using round_half_even_ge [of 0] by simp
  then show ?thesis
    by (simp add: round_pos_def)
qed

lemma round_pos_mono:
  assumes "0 < a" and "a \<le> b"
  shows "round_pos a \<le> round_pos b"
proof -
  let ?ea = "ulp_exponent a" and ?eb = "ulp_exponent b"
  from assms have b: "0 < b"
    by simp
  from assms have le: "?ea \<le> ?eb"
    by (rule ulp_exponent_mono)
  show ?thesis
  proof (cases "?ea = ?eb")
    case True
    from assms(2) have "a / 2 powr of_int ?eb \<le> b / 2 powr of_int ?eb"
      by (simp add: divide_right_mono)
    then have "round_half_even (a / 2 powr of_int ?eb) \<le> round_half_even (b / 2 powr of_int ?eb)"
      by (rule round_half_even_mono)
    then have "real_of_int (round_half_even (a / 2 powr of_int ?eb)) * 2 powr of_int ?eb
        \<le> real_of_int (round_half_even (b / 2 powr of_int ?eb)) * 2 powr of_int ?eb"
      by (simp add: mult_right_mono)
    with True show ?thesis
      by (simp add: round_pos_def)
  next
    case False
    with le have lt: "?ea + 1 \<le> ?eb"
      by simp
    have "- 1074 \<le> ?ea"
      by (simp add: ulp_exponent_def)
    with lt have norm: "- 1074 < ?eb"
      by simp
    have "a / 2 powr of_int ?ea \<le> of_int (2 ^ 53)"
      using scaled_upper [OF assms(1)] by simp
    then have "round_half_even (a / 2 powr of_int ?ea) \<le> 2 ^ 53"
      by (rule round_half_even_le)
    then have "real_of_int (round_half_even (a / 2 powr of_int ?ea)) \<le> 2 ^ 53"
      by (metis of_int_le_iff of_int_numeral of_int_power)
    then have "round_pos a \<le> 2 ^ 53 * 2 powr of_int ?ea"
      by (simp add: round_pos_def mult_right_mono)
    also have "\<dots> = 2 ^ 52 * 2 powr of_int (?ea + 1)"
      by (simp add: powr_add)
    also have "\<dots> \<le> 2 ^ 52 * 2 powr of_int ?eb"
      using lt by simp
    also have "\<dots> \<le> round_pos b"
    proof -
      have "of_int (2 ^ 52) \<le> b / 2 powr of_int ?eb"
        using scaled_lower [OF b norm] by simp
      then have "2 ^ 52 \<le> round_half_even (b / 2 powr of_int ?eb)"
        by (rule round_half_even_ge)
      then have "(2::real) ^ 52 \<le> real_of_int (round_half_even (b / 2 powr of_int ?eb))"
        by (metis of_int_le_iff of_int_numeral of_int_power)
      then show ?thesis
        by (simp add: round_pos_def mult_right_mono)
    qed
    finally show ?thesis .
  qed
qed

lemma binary64_round_mono:
  assumes "x \<le> y"
  shows "binary64_round x \<le> binary64_round y"
proof -
  consider "x = 0" | "0 < x" | "x < 0"
    by linarith
  then show ?thesis
  proof cases
    case 1
    with assms round_pos_nonneg [of y] show ?thesis
      by (auto simp: binary64_round_def)
  next
    case 2
    with assms round_pos_mono [of x y] show ?thesis
      by (auto simp: binary64_round_def)
  next
    case 3
    show ?thesis
    proof (cases "y < 0")
      case True
      with assms round_pos_mono [of "- y" "- x"] 3 show ?thesis
        by (auto simp: binary64_round_def)
    next
      case False
      with 3 round_pos_nonneg [of "- x"] round_pos_nonneg [of y] show ?thesis
        by (auto simp: binary64_round_def)
    qed
  qed
qed

lemma round_pos_representable:
  assumes "2 ^ 52 \<le> k" and "k < 2 ^ 53" and "- 1074 \<le> j"
  shows "round_pos (of_int k * 2 powr of_int j) = of_int k * 2 powr of_int j"
proof -
  let ?a = "real_of_int k * 2 powr of_int j"
  from assms(1) have k52: "(2::real) ^ 52 \<le> of_int k"
    by (metis of_int_le_iff of_int_numeral of_int_power)
  from assms(2) have k53: "of_int k < (2::real) ^ 53"
    by (metis of_int_less_iff of_int_numeral of_int_power)
  have "(2::real) powr of_int (52 + j) = 2 ^ 52 * 2 powr of_int j"
    by (simp add: powr_add)
  also have "\<dots> \<le> ?a"
    using k52 by (simp add: mult_right_mono)
  finally have lo: "2 powr of_int (52 + j) \<le> ?a" .
  have "?a < 2 ^ 53 * 2 powr of_int j"
    using k53 by (simp add: mult_strict_right_mono)
  also have "\<dots> = 2 powr of_int (52 + j + 1)"
    by (simp add: powr_add)
  finally have hi: "?a < 2 powr of_int (52 + j + 1)" .
  from lo hi have "\<lfloor>log 2 ?a\<rfloor> = 52 + j"
    by (rule floor_log2_eqI)
  with assms(3) have e: "ulp_exponent ?a = j"
    by (simp add: ulp_exponent_def)
  show ?thesis
    unfolding round_pos_def e by simp
qed

lemma binary64_round_0 [simp]: "binary64_round 0 = 0"
  by (simp add: binary64_round_def)

lemma binary64_round_representable:
  assumes "2 ^ 52 \<le> k" and "k < 2 ^ 53" and "- 1074 \<le> j"
  shows "binary64_round (of_int k * 2 powr of_int j) = of_int k * 2 powr of_int j"
proof -
  from assms(1) have "0 < k"
    by (rule less_le_trans [rotated]) simp
  then have "0 < real_of_int k * 2 powr of_int j"
    by simp
  with round_pos_representable [OF assms] show ?thesis
    by (simp add: binary64_round_def)
qed

lemma binary64_round_5 [simp]: "binary64_round 5 = 5"
  using binary64_round_representable [of "5 * 2 ^ 50" "- 50"]
  by (simp add: powr_minus field_simps)

lemma binary64_round_6: "binary64_round 6 = 6"
  using binary64_round_representable [of "6 * 2 ^ 50" "- 50"]
  by (simp add: powr_minus field_simps)

lemma binary64_round_1: "binary64_round 1 = 1"
  using binary64_round_representable [of "2 ^ 52" "- 52"]
  by (simp add: powr_minus field_simps)

lemma binary64_round_2_1024: "binary64_round (2 ^ 1024) = 2 ^ 1024"
  using binary64_round_representable [of "2 ^ 52" "972"]
  by (simp flip: power_add)

lemma binary64_round_tiny: "binary64_round (1 / 2 ^ 52) = 1 / 2 ^ 52"
  using binary64_round_representable [of "2 ^ 52" "- 104"]
  by (simp add: powr_minus field_simps flip: power_add)

lemma binary64_round_above_5: "binary64_round (5 + 1 / 2 ^ 52) = 5"
proof -
  let ?a = "5 + 1 / 2 ^ 52 :: real"
  have "(2::real) powr of_int 2 \<le> ?a" and "?a < 2 powr of_int (2 + 1)"
    by simp_all
  then have "\<lfloor>log 2 ?a\<rfloor> = 2"
    by (rule floor_log2_eqI)
  then have e: "ulp_exponent ?a = - 50"
    by (simp add: ulp_exponent_def)
  have s: "?a / 2 powr of_int (- 50) = of_int (5 * 2 ^ 50) + 1 / 4"
    by (simp add: powr_minus field_simps)
  have "\<lfloor>real_of_int (5 * 2 ^ 50) + 1 / 4\<rfloor> = 5 * 2 ^ 50"
    by (rule floor_unique) simp_all
  then have "round_half_even (real_of_int (5 * 2 ^ 50) + 1 / 4) = 5 * 2 ^ 50"
    by (simp add: round_half_even_def)
  then have "round_pos ?a = 5"
    unfolding round_pos_def e s by (simp add: powr_minus)
  then show ?thesis
    by (simp add: binary64_round_def)
qed

lemma binary64_round_2: "binary64_round 2 = 2"
  using binary64_round_representable [of "2 ^ 52" "- 51"]
  by (simp add: powr_minus field_simps)

lemma binary64_round_7: "binary64_round 7 = 7"
  using binary64_round_representable [of "7 * 2 ^ 50" "- 50"]
  by (simp add: powr_minus field_simps)

lemma round_pos_eval:
  assumes "2 powr of_int n \<le> a" and "a < 2 powr of_int (n + 1)" and "- 1074 \<le> n - 52"
  shows "round_pos a = of_int (round_half_even (a / 2 powr of_int (n - 52))) * 2 powr of_int (n - 52)"
proof -
  from assms(1,2) have "\<lfloor>log 2 a\<rfloor> = n"
    by (rule floor_log2_eqI)
  with assms(3) have "ulp_exponent a = n - 52"
    by (simp add: ulp_exponent_def)
  then show ?thesis
    by (simp add: round_pos_def)
qed

lemma rounding_tie_down: "binary64_round 9999999999999997 = 9999999999999996"
proof -
  have "round_pos 9999999999999997
      = of_int (round_half_even (9999999999999997 / 2 powr of_int (53 - 52))) * 2 powr of_int (53 - 52)"
    by (rule round_pos_eval) simp_all
  also have "\<dots> = 9999999999999996"
    by (simp add: round_half_even_def)
  finally show ?thesis
    by (simp add: binary64_round_def)
qed

lemma rounding_tie_even: "binary64_round 10000000000000001 = 10000000000000000"
proof -
  have "round_pos 10000000000000001
      = of_int (round_half_even (10000000000000001 / 2 powr of_int (53 - 52))) * 2 powr of_int (53 - 52)"
    by (rule round_pos_eval) simp_all
  also have "\<dots> = 10000000000000000"
    by (simp add: round_half_even_def)
  finally show ?thesis
    by (simp add: binary64_round_def)
qed

section \<open>Properties of the geometry policy\<close>

lemma float_of_real_not_NaN [simp]: "float_of_real x \<noteq> NaN"
  by (simp add: float_of_real_def)

lemma float_le_refl: "d \<noteq> NaN \<Longrightarrow> float_le d d"
  by (cases d) simp_all

lemma float_of_real_mono:
  assumes "x \<le> y"
  shows "float_le (float_of_real x) (float_of_real y)"
proof -
  from assms have "binary64_round x \<le> binary64_round y"
    by (rule binary64_round_mono)
  then show ?thesis
    by (auto simp: float_of_real_def)
qed

lemma float_of_real_ge_5:
  assumes "5 \<le> x"
  shows "float_le (Finite 5) (float_of_real x)"
proof -
  from assms have "binary64_round 5 \<le> binary64_round x"
    by (rule binary64_round_mono)
  then show ?thesis
    by (auto simp: float_of_real_def)
qed

lemma float_of_real_nonneg:
  assumes "0 \<le> x"
  shows "float_le (Finite 0) (float_of_real x)"
proof -
  from assms have "binary64_round 0 \<le> binary64_round x"
    by (rule binary64_round_mono)
  then show ?thesis
    by (auto simp: float_of_real_def)
qed

lemma float_add_5_ge:
  assumes "float_le (Finite 0) t"
  shows "float_le (Finite 5) (float_add (Finite 5) t)"
  using assms by (cases t) (simp_all add: float_of_real_ge_5)

lemma float_add_5_mono:
  assumes "float_le a b"
  shows "float_le (float_add (Finite 5) a) (float_add (Finite 5) b)"
proof (cases a)
  case (Finite x)
  with assms show ?thesis
    by (cases b) (simp_all add: float_of_real_mono, simp add: float_of_real_def)
next
  case PosInf
  with assms show ?thesis by (cases b) simp_all
next
  case NegInf
  with assms show ?thesis by (cases b) (simp_all, simp add: float_of_real_def)
next
  case NaN
  with assms show ?thesis by simp
qed

lemma float_sub_5_mono:
  assumes "float_le a b"
  shows "float_le (float_sub a (Finite 5)) (float_sub b (Finite 5))"
proof (cases a)
  case (Finite x)
  with assms show ?thesis
    by (cases b) (simp_all add: float_of_real_mono, simp add: float_of_real_def)
next
  case PosInf
  with assms show ?thesis by (cases b) simp_all
next
  case NegInf
  with assms show ?thesis by (cases b) (simp_all, simp add: float_of_real_def)
next
  case NaN
  with assms show ?thesis by simp
qed

lemma radius_float:
  "calculate_protection_radius (PyFloat d) =
     (if float_le d (Finite 5) then Inr (Finite 5)
      else Inr (float_add (Finite 5) (float_sub d (Finite 5))))"
  by (simp add: calculate_protection_radius_def)

lemma radius_int:
  "calculate_protection_radius (PyInt n) =
     (if n \<le> 5 then Inr (Finite 5)
      else and_then (int_to_float n) (\<lambda>f. Inr (float_add (Finite 5) (float_sub f (Finite 5)))))"
  by (simp add: calculate_protection_radius_def and_then_def split: sum.splits)

lemma float_sub_5_nonneg:
  assumes "d \<noteq> NaN" and "\<not> float_le d (Finite 5)"
  shows "float_le (Finite 0) (float_sub d (Finite 5))"
  using assms by (cases d) (simp_all add: float_of_real_nonneg)

lemma radius_float_ge_5:
  assumes "d \<noteq> NaN"
  shows "\<exists>r. calculate_protection_radius (PyFloat d) = Inr r \<and> float_le (Finite 5) r"
  using assms float_add_5_ge [OF float_sub_5_nonneg [OF assms]]
  by (simp add: radius_float)

lemma float_le_trans_5:
  assumes "float_le a (Finite 5)" and "float_le (Finite 5) b"
  shows "float_le a b"
  using assms by (cases a; cases b) simp_all

lemma float_le_not_le:
  assumes "float_le a b" and "float_le b (Finite 5)"
  shows "float_le a (Finite 5)"
  using assms by (cases a; cases b) simp_all

lemma radius_float_mono:
  assumes "d1 \<noteq> NaN" and "d2 \<noteq> NaN" and "float_le d1 d2"
  shows "\<exists>r1 r2. calculate_protection_radius (PyFloat d1) = Inr r1
           \<and> calculate_protection_radius (PyFloat d2) = Inr r2 \<and> float_le r1 r2"
proof (cases "float_le d2 (Finite 5)")
  case True
  with assms(3) have "float_le d1 (Finite 5)"
    by (rule float_le_not_le)
  with True show ?thesis
    by (simp add: radius_float)
next
  case False
  note big2 = this
  show ?thesis
  proof (cases "float_le d1 (Finite 5)")
    case True
    from radius_float_ge_5 [OF assms(2)] True show ?thesis
      by (auto simp: radius_float)
  next
    case False
    from assms(3) have "float_le (float_sub d1 (Finite 5)) (float_sub d2 (Finite 5))"
      by (rule float_sub_5_mono)
    then have "float_le (float_add (Finite 5) (float_sub d1 (Finite 5)))
                        (float_add (Finite 5) (float_sub d2 (Finite 5)))"
      by (rule float_add_5_mono)
    with False big2 show ?thesis
      by (simp add: radius_float)
  qed
qed

lemma radius_float_near_5:
  assumes "\<bar>x - 5\<bar> < 1 / 2 ^ 52"
  shows "calculate_protection_radius (PyFloat (Finite x)) = Inr (Finite 5)"
proof (cases "x \<le> 5")
  case True
  then show ?thesis
    by (simp add: radius_float)
next
  case False
  with assms have pos: "0 \<le> x - 5" and small: "x - 5 \<le> 1 / 2 ^ 52"
    by simp_all
  let ?t = "binary64_round (x - 5)"
  from pos have t0: "0 \<le> ?t"
    using binary64_round_mono [of 0 "x - 5"] by simp
  from small have t1: "?t \<le> 1 / 2 ^ 52"
    using binary64_round_mono [of "x - 5" "1 / 2 ^ 52"] by (simp only: binary64_round_tiny)
  have "(1::real) / 2 ^ 52 < 2 ^ 1024"
    by (rule less_le_trans [of _ 1]) simp_all
  with t0 t1 have sub: "float_of_real (x - 5) = Finite ?t"
    by (simp add: float_of_real_def)
  from t0 have "binary64_round 5 \<le> binary64_round (5 + ?t)"
    by (intro binary64_round_mono) simp
  moreover from t1 have "binary64_round (5 + ?t) \<le> binary64_round (5 + 1 / 2 ^ 52)"
    by (intro binary64_round_mono) simp
  ultimately have "5 \<le> binary64_round (5 + ?t)" and "binary64_round (5 + ?t) \<le> 5"
    unfolding binary64_round_5 binary64_round_above_5 by this+
  then have "binary64_round (5 + ?t) = 5"
    by (rule antisym [rotated])
  then have "float_of_real (5 + ?t) = Finite 5"
    by (simp add: float_of_real_def)
  with sub False show ?thesis
    by (simp add: radius_float)
qed

lemma radius_continuous_at_5:
  assumes "0 < \<epsilon>"
  shows "\<exists>\<delta>>0. \<forall>x. \<bar>x - 5\<bar> < \<delta> \<longrightarrow>
           (\<exists>y. calculate_protection_radius (PyFloat (Finite x)) = Inr (Finite y) \<and> \<bar>y - 5\<bar> < \<epsilon>)"
proof -
  have pos: "(0::real) < 1 / 2 ^ 52"
    by simp
  have near: "\<forall>x. \<bar>x - 5\<bar> < 1 / 2 ^ 52 \<longrightarrow>
           (\<exists>y. calculate_protection_radius (PyFloat (Finite x)) = Inr (Finite y) \<and> \<bar>y - 5\<bar> < \<epsilon>)"
  proof (intro allI impI)
    fix x :: real
    assume "\<bar>x - 5\<bar> < 1 / 2 ^ 52"
    then have "calculate_protection_radius (PyFloat (Finite x)) = Inr (Finite 5)"
      by (rule radius_float_near_5)
    with assms show "\<exists>y. calculate_protection_radius (PyFloat (Finite x)) = Inr (Finite y) \<and> \<bar>y - 5\<bar> < \<epsilon>"
      by simp
  qed
  from pos near show ?thesis
    by blast
qed

lemma int_to_float_overflow:
  assumes "2 ^ 1024 \<le> n"
  shows "int_to_float n = Inl OverflowError"
proof -
  from assms have "(2::real) ^ 1024 \<le> of_int n"
    by (metis of_int_le_iff of_int_numeral of_int_power)
  then have "binary64_round (2 ^ 1024) \<le> binary64_round (of_int n)"
    by (rule binary64_round_mono)
  then have "2 ^ 1024 \<le> binary64_round (of_int n)"
    unfolding binary64_round_2_1024 .
  then have "2 ^ 1024 \<le> \<bar>binary64_round (of_int n)\<bar>"
    by (rule order_trans [OF _ abs_ge_self])
  then show ?thesis
    by (simp add: int_to_float_def)
qed

lemma radius_int_ge_5:
  assumes "calculate_protection_radius (PyInt n) = Inr r"
  shows "float_le (Finite 5) r"
proof (cases "n \<le> 5")
  case True
  with assms show ?thesis
    by (auto simp: radius_int)
next
  case False
  then have "(6::real) \<le> of_int n"
    by simp
  then have "binary64_round 6 \<le> binary64_round (of_int n)"
    by (rule binary64_round_mono)
  then have six: "6 \<le> binary64_round (of_int n)"
    by (simp add: binary64_round_6)
  from assms False have r: "int_to_float n = Inr (Finite (binary64_round (of_int n)))"
    and r': "r = float_add (Finite 5) (float_sub (Finite (binary64_round (of_int n))) (Finite 5))"
    by (auto simp: radius_int int_to_float_def split: if_splits)
  from six have "float_le (Finite 0) (float_of_real (binary64_round (of_int n) - 5))"
    by (intro float_of_real_nonneg) simp
  then show ?thesis
    unfolding r' by (simp add: float_add_5_ge)
qed

text \<open>
  The rounding of the model at work: \<^verbatim>\<open>1e16 + 2\<close> is a double, the difference
  \<^verbatim>\<open>d - 5.0\<close> and the sum \<^verbatim>\<open>5.0 + \<dots>\<close> are both ties, and the result is
  \<^verbatim>\<open>1e16\<close>.
\<close>

lemma rounding_example:
  "calculate_protection_radius (PyFloat (Finite 10000000000000002))
     = Inr (Finite 10000000000000000)"
proof -
  have "(10000000000000000::real) < 2 ^ 1024"
    by (rule less_le_trans [of _ "2 ^ 64"]) simp_all
  then have big: "\<not> (2::real) ^ 1024 \<le> 9999999999999996" "\<not> (2::real) ^ 1024 \<le> 10000000000000000"
    by linarith+
  have "float_sub (Finite 10000000000000002) (Finite 5) = Finite 9999999999999996"
    using big(1) by (simp only: float_sub.simps float_of_real_def) (simp add: rounding_tie_down)
  moreover have "float_add (Finite 5) (Finite 9999999999999996) = Finite 10000000000000000"
    using big(2) by (simp only: float_add.simps float_of_real_def) (simp add: rounding_tie_even)
  ultimately show ?thesis
    by (simp add: radius_float)
qed

text \<open>
  Claim C7, as stated: the function is total, with no error path.  It is not: the
  JSON integer \<open>10 ^ 400\<close> is a diameter the function can be given, it is above 5,
  and its conversion to a float in \<^verbatim>\<open>diameter - 5.0\<close> raises an OverflowError.
\<close>

theorem protection_radius_total_counterexample: "calculate_protection_radius (PyInt (10 ^ 400)) = Inl OverflowError"
proof -
  have "(2::int) ^ 1024 \<le> 10 ^ 400"
    by simp
  then have "int_to_float (10 ^ 400) = Inl OverflowError"
    by (rule int_to_float_overflow)
  then show ?thesis
    by (simp add: radius_int)
qed

text \<open>
  Claim C7, amended.  For every float diameter \<open>d\<close> the protection radius is 5.0
  when \<open>d \<le> 5\<close> and the float \<open>5.0 + (d - 5.0)\<close> otherwise (NaN for NaN).  On the
  floats other than NaN the function is monotonic non-decreasing.  At \<open>d = 5\<close>
  both branches give exactly 5.0 and the function is continuous there.  An int
  diameter gives 5.0 when it is at most 5 and is converted to a float otherwise.
  The function is not total: it raises an OverflowError for an int beyond the
  range of a float and a TypeError for \<^verbatim>\<open>None\<close> and for a string.
\<close>

theorem protection_radius_piecewise:
  "(float_le d (Finite 5) \<longrightarrow> calculate_protection_radius (PyFloat d) = Inr (Finite 5.0))
   \<and> (\<not> float_le d (Finite 5) \<longrightarrow>
        calculate_protection_radius (PyFloat d)
          = Inr (float_add (Finite 5.0) (float_sub d (Finite 5.0))))
   \<and> (d1 \<noteq> NaN \<and> d2 \<noteq> NaN \<and> float_le d1 d2 \<longrightarrow>
        (\<exists>r1 r2. calculate_protection_radius (PyFloat d1) = Inr r1
           \<and> calculate_protection_radius (PyFloat d2) = Inr r2 \<and> float_le r1 r2))
   \<and> calculate_protection_radius (PyFloat (Finite 5)) = Inr (Finite 5.0)
   \<and> float_add (Finite 5.0) (float_sub (Finite 5) (Finite 5.0)) = Finite 5.0
   \<and> (\<forall>\<epsilon>>0. \<exists>\<delta>>0. \<forall>x. \<bar>x - 5\<bar> < \<delta> \<longrightarrow>
         (\<exists>y. calculate_protection_radius (PyFloat (Finite x)) = Inr (Finite y)
              \<and> \<bar>y - 5\<bar> < \<epsilon>))
   \<and> (n \<le> 5 \<longrightarrow> calculate_protection_radius (PyInt n) = Inr (Finite 5.0))
   \<and> (5 < n \<and> int_to_float n = Inr f \<longrightarrow>
        calculate_protection_radius (PyInt n)
          = Inr (float_add (Finite 5.0) (float_sub f (Finite 5.0))))
   \<and> (2 ^ 1024 \<le> n \<longrightarrow> calculate_protection_radius (PyInt n) = Inl OverflowError)
   \<and> calculate_protection_radius PyNone = Inl TypeError
   \<and> calculate_protection_radius (PyStr s) = Inl TypeError"
proof (intro conjI impI)
  assume "float_le d (Finite 5)"
  then show "calculate_protection_radius (PyFloat d) = Inr (Finite 5.0)"
    by (simp add: radius_float)
next
  assume "\<not> float_le d (Finite 5)"
  then show "calculate_protection_radius (PyFloat d)
          = Inr (float_add (Finite 5.0) (float_sub d (Finite 5.0)))"
    by (simp add: radius_float)
next
  assume "d1 \<noteq> NaN \<and> d2 \<noteq> NaN \<and> float_le d1 d2"
  then show "\<exists>r1 r2. calculate_protection_radius (PyFloat d1) = Inr r1
           \<and> calculate_protection_radius (PyFloat d2) = Inr r2 \<and> float_le r1 r2"
    using radius_float_mono by blast
next
  show "calculate_protection_radius (PyFloat (Finite 5)) = Inr (Finite 5.0)"
    by (simp add: radius_float)
next
  have "float_of_real 0 = Finite 0"
    by (simp add: float_of_real_def)
  moreover have "float_of_real 5 = Finite 5"
    by (simp add: float_of_real_def)
  ultimately show "float_add (Finite 5.0) (float_sub (Finite 5) (Finite 5.0)) = Finite 5.0"
    by simp
next
  show "\<forall>\<epsilon>>0. \<exists>\<delta>>0. \<forall>x. \<bar>x - 5\<bar> < \<delta> \<longrightarrow>
         (\<exists>y. calculate_protection_radius (PyFloat (Finite x)) = Inr (Finite y)
              \<and> \<bar>y - 5\<bar> < \<epsilon>)"
    using radius_continuous_at_5 by blast
next
  assume "n \<le> 5"
  then show "calculate_protection_radius (PyInt n) = Inr (Finite 5.0)"
    by (simp add: radius_int)
next
  assume "5 < n \<and> int_to_float n = Inr f"
  then show "calculate_protection_radius (PyInt n)
          = Inr (float_add (Finite 5.0) (float_sub f (Finite 5.0)))"
    by (simp add: radius_int)
next
  assume big: "2 ^ 1024 \<le> n"
  have "(5::int) < 2 ^ 1024"
    by (rule less_le_trans [of _ "2 ^ 3"]) simp_all
  with big have "\<not> n \<le> 5"
    by linarith
  with int_to_float_overflow [OF big] show "calculate_protection_radius (PyInt n) = Inl OverflowError"
    by (simp add: radius_int)
next
  show "calculate_protection_radius PyNone = Inl TypeError"
    by (simp add: calculate_protection_radius_def)
next
  show "calculate_protection_radius (PyStr s) = Inl TypeError"
    by (simp add: calculate_protection_radius_def)
qed

theorem protection_radius_piecewise_witness:
  "calculate_protection_radius (PyFloat (Finite 4)) = Inr (Finite 5)
   \<and> calculate_protection_radius (PyFloat (Finite 7)) = Inr (Finite 7)
   \<and> calculate_protection_radius (PyInt 3) = Inr (Finite 5)
   \<and> calculate_protection_radius (PyInt (2 ^ 1024)) = Inl OverflowError"
proof -
  have lt: "(7::real) < 2 ^ 1024" "(2::real) < 2 ^ 1024"
    by (rule less_le_trans [of _ "2 ^ 3"], simp, simp)+
  have "float_of_real 2 = Finite 2"
    using lt by (simp add: float_of_real_def binary64_round_2)
  moreover have "float_of_real 7 = Finite 7"
    using lt by (simp add: float_of_real_def binary64_round_7)
  ultimately have e: "float_add (Finite 5) (float_sub (Finite 7) (Finite 5)) = Finite 7"
    by simp
  from protection_radius_piecewise [of "Finite 4"] have a: "calculate_protection_radius (PyFloat (Finite 4)) = Inr (Finite 5)"
    by simp
  from protection_radius_piecewise [of "Finite 7"] e have b: "calculate_protection_radius (PyFloat (Finite 7)) = Inr (Finite 7)"
    by simp
  from protection_radius_piecewise [of _ _ _ 3] have c: "calculate_protection_radius (PyInt 3) = Inr (Finite 5)"
    by simp
  from protection_radius_piecewise [of _ _ _ "2 ^ 1024"]
  have d: "calculate_protection_radius (PyInt (2 ^ 1024)) = Inl OverflowError"
    by blast
  from a b c d show ?thesis
    by blast
qed

text \<open>
  Claim C9, as stated: for every input diameter, however degenerate, the returned
  value is at least 5.0.  It is not: for NaN the function returns NaN, and
  \<^verbatim>\<open>nan >= 5.0\<close> is false.
\<close>

theorem protection_radius_minimum_counterexample:
  "calculate_protection_radius (PyFloat NaN) = Inr NaN \<and> \<not> float_le (Finite 5.0) NaN"
  by (simp add: radius_float)

text \<open>
  Claim C9, amended.  For every float diameter other than NaN, the infinities, zero
  and the negative values included, the function returns a value that is at least
  5.0, and so does every call with an int diameter that returns; zero and negative
  diameters give exactly 5.0.  For NaN the function returns NaN, and for an int
  beyond the range of a float it raises an OverflowError and returns nothing.
\<close>

theorem protection_radius_minimum:
  "(d \<noteq> NaN \<longrightarrow>
      (\<exists>r. calculate_protection_radius (PyFloat d) = Inr r \<and> float_le (Finite 5.0) r))
   \<and> (calculate_protection_radius (PyInt n) = Inr r' \<longrightarrow> float_le (Finite 5.0) r')
   \<and> (x \<le> 0 \<longrightarrow> calculate_protection_radius (PyFloat (Finite x)) = Inr (Finite 5.0))
   \<and> (n \<le> 0 \<longrightarrow> calculate_protection_radius (PyInt n) = Inr (Finite 5.0))
   \<and> calculate_protection_radius (PyFloat NegInf) = Inr (Finite 5.0)
   \<and> calculate_protection_radius (PyFloat NaN) = Inr NaN
   \<and> (2 ^ 1024 \<le> n \<longrightarrow> calculate_protection_radius (PyInt n) = Inl OverflowError)"
proof (intro conjI impI)
  assume "d \<noteq> NaN"
  then show "\<exists>r. calculate_protection_radius (PyFloat d) = Inr r \<and> float_le (Finite 5.0) r"
    using radius_float_ge_5 by simp
next
  assume "calculate_protection_radius (PyInt n) = Inr r'"
  then show "float_le (Finite 5.0) r'"
    using radius_int_ge_5 by simp
next
  assume "x \<le> 0"
  then show "calculate_protection_radius (PyFloat (Finite x)) = Inr (Finite 5.0)"
    by (simp add: radius_float)
next
  assume "n \<le> 0"
  then show "calculate_protection_radius (PyInt n) = Inr (Finite 5.0)"
    by (simp add: radius_int)
next
  show "calculate_protection_radius (PyFloat NegInf) = Inr (Finite 5.0)"
    by (simp add: radius_float)
next
  show "calculate_protection_radius (PyFloat NaN) = Inr NaN"
    by (simp add: radius_float)
next
  assume big: "2 ^ 1024 \<le> n"
  have "(5::int) < 2 ^ 1024"
    by (rule less_le_trans [of _ "2 ^ 3"]) simp_all
  with big have "\<not> n \<le> 5"
    by linarith
  with int_to_float_overflow [OF big] show "calculate_protection_radius (PyInt n) = Inl OverflowError"
    by (simp add: radius_int)
qed

theorem protection_radius_minimum_witness:
  "(\<exists>r. calculate_protection_radius (PyFloat (Finite (- 3))) = Inr r \<and> float_le (Finite 5) r)
   \<and> (\<exists>r. calculate_protection_radius (PyFloat PosInf) = Inr r \<and> float_le (Finite 5) r)
   \<and> calculate_protection_radius (PyFloat (Finite (- 3))) = Inr (Finite 5)
   \<and> calculate_protection_radius (PyInt (- 2)) = Inr (Finite 5)
   \<and> float_le (Finite 5) (Finite 5)"
proof -
  from protection_radius_minimum [of "Finite (- 3)"]
  have a: "\<exists>r. calculate_protection_radius (PyFloat (Finite (- 3))) = Inr r \<and> float_le (Finite 5) r"
    by simp
  from protection_radius_minimum [of PosInf]
  have b: "\<exists>r. calculate_protection_radius (PyFloat PosInf) = Inr r \<and> float_le (Finite 5) r"
    by simp
  from protection_radius_minimum [of _ _ _ "- 3"]
  have c: "calculate_protection_radius (PyFloat (Finite (- 3))) = Inr (Finite 5)"
    by simp
  from protection_radius_minimum [of _ "- 2"]
  have d: "calculate_protection_radius (PyInt (- 2)) = Inr (Finite 5)"
    by simp
  from protection_radius_minimum [of _ "- 2" "Finite 5"] d
  have e: "float_le (Finite 5) (Finite 5)"
    by simp
  from a b c d e show ?thesis
    by blast
qed

section \<open>Properties of the feature normalizer\<close>

lemma get2_JObj:
  "get2 (JObj kvs) k1 k2 dflt =
     Inr (case map_of kvs k1 of Some v \<Rightarrow> v
          | None \<Rightarrow> (case map_of kvs k2 of Some v \<Rightarrow> v | None \<Rightarrow> dflt))"
  by (simp add: get2_def split: option.splits)

lemma normalize_feature_JObj:
  assumes "subscript_key feature ''properties'' = Inr (JObj kvs)"
    and "subscript_key feature ''geometry'' = Inr geometry"
    and "subscript_key geometry ''coordinates'' = Inr coords"
    and "subscript_index coords 0 = Inr lon"
    and "subscript_index coords 1 = Inr lat"
  shows "normalize_feature feature = Inr
     \<lparr> longitude = lon, latitude = lat,
       diameter = (case map_of kvs ''DIAMETER'' of Some v \<Rightarrow> v | None \<Rightarrow>
         (case map_of kvs ''diameter'' of Some v \<Rightarrow> v | None \<Rightarrow> JInt 0)),
       species_common = (case map_of kvs ''SPP_COM'' of Some v \<Rightarrow> v | None \<Rightarrow>
         (case map_of kvs ''species_common'' of Some v \<Rightarrow> v | None \<Rightarrow> JStr ''Unknown'')),
       species_botanical = (case map_of kvs ''SPP_BOT'' of Some v \<Rightarrow> v | None \<Rightarrow>
         (case map_of kvs ''species_botanical'' of Some v \<Rightarrow> v | None \<Rightarrow> JStr ''Unknown'')),
       status = (case map_of kvs ''STATUS'' of Some v \<Rightarrow> v | None \<Rightarrow>
         (case map_of kvs ''status'' of Some v \<Rightarrow> v | None \<Rightarrow> JStr ''Unknown'')),
       site_id = (case map_of kvs ''site_id'' of Some v \<Rightarrow> v | None \<Rightarrow>
         (case map_of kvs ''OBJECTID'' of Some v \<Rightarrow> v | None \<Rightarrow> JStr ''Unknown'')),
       object_id = (case map_of kvs ''OBJECTID'' of Some v \<Rightarrow> v | None \<Rightarrow>
         (case map_of kvs ''object_id'' of Some v \<Rightarrow> v | None \<Rightarrow> JNull)) \<rparr>"
  unfolding normalize_feature_def using assms by (simp add: get2_JObj)

lemma normalize_feature_short_coords:
  assumes "subscript_key feature ''properties'' = Inr props"
    and "subscript_key feature ''geometry'' = Inr geometry"
    and "subscript_key geometry ''coordinates'' = Inr (JArr cs)"
    and "length cs < 2"
  shows "normalize_feature feature = Inl IndexError"
  unfolding normalize_feature_def using assms by (cases cs) auto

lemma normalize_feature_no_coords:
  assumes "subscript_key feature ''properties'' = Inr props"
    and "subscript_key feature ''geometry'' = Inr (JObj g)"
    and "map_of g ''coordinates'' = None"
  shows "normalize_feature feature = Inl KeyError"
  unfolding normalize_feature_def using assms by auto

lemma normalize_all_Inr:
  "\<forall>f\<in>set items. \<exists>r. normalize_feature f = Inr r \<Longrightarrow>
     normalize_all items acc = Inr (acc @ map (\<lambda>f. projr (normalize_feature f)) items)"
  by (induction items arbitrary: acc) auto

lemma normalize_all_Inl:
  "\<exists>f\<in>set items. \<exists>e. normalize_feature f = Inl e \<Longrightarrow> \<exists>e. normalize_all items acc = Inl e"
proof (induction items arbitrary: acc)
  case Nil
  then show ?case by simp
next
  case (Cons f items)
  show ?case
  proof (cases "normalize_feature f")
    case (Inl e)
    then show ?thesis by simp
  next
    case (Inr r)
    with Cons.prems have "\<exists>f\<in>set items. \<exists>e. normalize_feature f = Inl e"
      by auto
    from Cons.IH [OF this] Inr show ?thesis
      by simp
  qed
qed

text \<open>
  Claim C8.  A feature whose properties are a dict and whose coordinates have two
  components is normalized; \<^verbatim>\<open>diameter\<close>, \<^verbatim>\<open>species_common\<close>,
  \<^verbatim>\<open>species_botanical\<close>, \<^verbatim>\<open>status\<close> and \<^verbatim>\<open>object_id\<close> are read under the
  uppercase key first and the lowercase key second, with the default when both are
  absent; \<^verbatim>\<open>site_id\<close> is the explicit site id, then the object id, then
  \<^verbatim>\<open>"Unknown"\<close>.  In particular, without \<^verbatim>\<open>DIAMETER\<close> and \<^verbatim>\<open>diameter\<close> the
  diameter is 0, and without \<^verbatim>\<open>site_id\<close> and \<^verbatim>\<open>OBJECTID\<close> the site id is
  \<^verbatim>\<open>"Unknown"\<close>.
\<close>

theorem normalize_default_fallback:
  assumes "subscript_key feature ''properties'' = Inr (JObj kvs)"
    and "subscript_key feature ''geometry'' = Inr geometry"
    and "subscript_key geometry ''coordinates'' = Inr coords"
    and "subscript_index coords 0 = Inr lon"
    and "subscript_index coords 1 = Inr lat"
  shows "\<exists>r. normalize_feature feature = Inr r
     \<and> diameter r = (case map_of kvs ''DIAMETER'' of Some v \<Rightarrow> v | None \<Rightarrow>
         (case map_of kvs ''diameter'' of Some v \<Rightarrow> v | None \<Rightarrow> JInt 0))
     \<and> species_common r = (case map_of kvs ''SPP_COM'' of Some v \<Rightarrow> v | None \<Rightarrow>
         (case map_of kvs ''species_common'' of Some v \<Rightarrow> v | None \<Rightarrow> JStr ''Unknown''))
     \<and> species_botanical r = (case map_of kvs ''SPP_BOT'' of Some v \<Rightarrow> v | None \<Rightarrow>
         (case map_of kvs ''species_botanical'' of Some v \<Rightarrow> v | None \<Rightarrow> JStr ''Unknown''))
     \<and> status r = (case map_of kvs ''STATUS'' of Some v \<Rightarrow> v | None \<Rightarrow>
         (case map_of kvs ''status'' of Some v \<Rightarrow> v | None \<Rightarrow> JStr ''Unknown''))
     \<and> object_id r = (case map_of kvs ''OBJECTID'' of Some v \<Rightarrow> v | None \<Rightarrow>
         (case map_of kvs ''object_id'' of Some v \<Rightarrow> v | None \<Rightarrow> JNull))
     \<and> site_id r = (case map_of kvs ''site_id'' of Some v \<Rightarrow> v | None \<Rightarrow>
         (case map_of kvs ''OBJECTID'' of Some v \<Rightarrow> v | None \<Rightarrow> JStr ''Unknown''))
     \<and> (map_of kvs ''DIAMETER'' = None \<and> map_of kvs ''diameter'' = None
          \<longrightarrow> diameter r = JInt 0)
     \<and> (map_of kvs ''site_id'' = None \<and> map_of kvs ''OBJECTID'' = None
          \<longrightarrow> site_id r = JStr ''Unknown'')"
  using normalize_feature_JObj [OF assms] by simp

theorem normalize_default_fallback_witness:
  "\<exists>r. normalize_feature (JObj [(''type'', JStr ''Feature''),
     (''properties'', JObj [(''SPP_COM'', JStr ''Honeylocust''), (''status'', JStr ''Active'')]),
     (''geometry'', JObj [(''type'', JStr ''Point''),
         (''coordinates'', JArr [JFloat (-89.385608), JFloat 43.056392])])]) = Inr r
     \<and> diameter r = JInt 0 \<and> species_common r = JStr ''Honeylocust''
     \<and> status r = JStr ''Active'' \<and> site_id r = JStr ''Unknown'' \<and> object_id r = JNull"
  using normalize_default_fallback [of "JObj [(''type'', JStr ''Feature''),
     (''properties'', JObj [(''SPP_COM'', JStr ''Honeylocust''), (''status'', JStr ''Active'')]),
     (''geometry'', JObj [(''type'', JStr ''Point''),
         (''coordinates'', JArr [JFloat (-89.385608), JFloat 43.056392])])]"
     "[(''SPP_COM'', JStr ''Honeylocust''), (''status'', JStr ''Active'')]"
     "JObj [(''type'', JStr ''Point''),
         (''coordinates'', JArr [JFloat (-89.385608), JFloat 43.056392])]"
     "JArr [JFloat (-89.385608), JFloat 43.056392]" "JFloat (-89.385608)" "JFloat 43.056392"]
  by auto

text \<open>
  Claim C5, as stated: a feature with malformed coordinates fails alone, and the
  collection still yields the records of its well-formed features.  It does not:
  the first feature below is well formed, the second has one coordinate, and the
  collection yields the IndexError and no record.
\<close>

theorem malformed_geometry_isolated_counterexample:
  "process_geojson_data (JObj [(''type'', JStr ''FeatureCollection''), (''features'', JArr [
      JObj [(''properties'', JObj [(''DIAMETER'', JFloat 6.0)]),
            (''geometry'', JObj [(''type'', JStr ''Point''),
               (''coordinates'', JArr [JFloat (-89.385608), JFloat 43.056392])])],
      JObj [(''properties'', JObj [(''DIAMETER'', JFloat 7.0)]),
            (''geometry'', JObj [(''type'', JStr ''Point''),
               (''coordinates'', JArr [JFloat (-89.4)])])]])])
     = Inl IndexError
   \<and> (\<exists>r. normalize_feature
         (JObj [(''properties'', JObj [(''DIAMETER'', JFloat 6.0)]),
                (''geometry'', JObj [(''type'', JStr ''Point''),
                   (''coordinates'', JArr [JFloat (-89.385608), JFloat 43.056392])])]) = Inr r)"
  by (simp add: process_geojson_data_def normalize_feature_def get2_def)

text \<open>
  Claim C5, amended.  Normalizing a feature fails when its geometry has no
  coordinates (KeyError) or its coordinate list has fewer than two components
  (IndexError).  The failure is fatal for the whole collection:
  \<^verbatim>\<open>process_geojson_data\<close> yields an exception and no record as soon as one feature
  fails, and yields the records, one per feature and in order, only when every
  feature is normalized.
\<close>

theorem malformed_geometry_aborts_collection:
  assumes "subscript_key geojson_data ''features'' = Inr (JArr items)"
  shows "(subscript_key feature ''properties'' = Inr props
            \<and> subscript_key feature ''geometry'' = Inr (JObj g)
            \<and> map_of g ''coordinates'' = None
          \<longrightarrow> normalize_feature feature = Inl KeyError)
     \<and> (subscript_key feature ''properties'' = Inr props
            \<and> subscript_key feature ''geometry'' = Inr (JObj g)
            \<and> map_of g ''coordinates'' = Some (JArr cs) \<and> length cs < 2
          \<longrightarrow> normalize_feature feature = Inl IndexError)
     \<and> ((\<exists>f\<in>set items. \<exists>e. normalize_feature f = Inl e)
          \<longrightarrow> (\<exists>e. process_geojson_data geojson_data = Inl e))
     \<and> ((\<forall>f\<in>set items. \<exists>r. normalize_feature f = Inr r)
          \<longrightarrow> process_geojson_data geojson_data
                = Inr (map (\<lambda>f. projr (normalize_feature f)) items))"
proof (intro conjI impI)
  assume "subscript_key feature ''properties'' = Inr props
            \<and> subscript_key feature ''geometry'' = Inr (JObj g)
            \<and> map_of g ''coordinates'' = None"
  then show "normalize_feature feature = Inl KeyError"
    using normalize_feature_no_coords by blast
next
  assume a: "subscript_key feature ''properties'' = Inr props
            \<and> subscript_key feature ''geometry'' = Inr (JObj g)
            \<and> map_of g ''coordinates'' = Some (JArr cs) \<and> length cs < 2"
  then have "subscript_key (JObj g) ''coordinates'' = Inr (JArr cs)"
    by simp
  with a show "normalize_feature feature = Inl IndexError"
    using normalize_feature_short_coords by blast
next
  assume "\<exists>f\<in>set items. \<exists>e. normalize_feature f = Inl e"
  from normalize_all_Inl [OF this, of "[]"] assms
  show "\<exists>e. process_geojson_data geojson_data = Inl e"
    by (simp add: process_geojson_data_def)
next
  assume "\<forall>f\<in>set items. \<exists>r. normalize_feature f = Inr r"
  from normalize_all_Inr [OF this, of "[]"] assms
  show "process_geojson_data geojson_data = Inr (map (\<lambda>f. projr (normalize_feature f)) items)"
    by (simp add: process_geojson_data_def)
qed

theorem malformed_geometry_aborts_collection_witness:
  "normalize_feature (JObj [(''properties'', JObj []),
       (''geometry'', JObj [(''coordinates'', JArr [JInt 1])])]) = Inl IndexError
   \<and> (\<exists>e. process_geojson_data (JObj [(''features'', JArr [
         JObj [(''properties'', JObj []),
               (''geometry'', JObj [(''coordinates'', JArr [JInt 1, JInt 2])])],
         JObj [(''properties'', JObj []),
               (''geometry'', JObj [(''coordinates'', JArr [JInt 1])])]])]) = Inl e)"
  using malformed_geometry_aborts_collection
    [of "JObj [(''features'', JArr [
         JObj [(''properties'', JObj []),
               (''geometry'', JObj [(''coordinates'', JArr [JInt 1, JInt 2])])],
         JObj [(''properties'', JObj []),
               (''geometry'', JObj [(''coordinates'', JArr [JInt 1])])]])]"
      "[JObj [(''properties'', JObj []),
               (''geometry'', JObj [(''coordinates'', JArr [JInt 1, JInt 2])])],
        JObj [(''properties'', JObj []),
               (''geometry'', JObj [(''coordinates'', JArr [JInt 1])])]]"
      "JObj [(''properties'', JObj []),
               (''geometry'', JObj [(''coordinates'', JArr [JInt 1])])]"
      "JObj []" "[(''coordinates'', JArr [JInt 1])]" "[JInt 1]"]
  by (simp add: normalize_feature_def)

section \<open>Properties of the batched feature fetcher\<close>

lemma py_range_map:
  "0 < c \<Longrightarrow> py_range s n c = map (\<lambda>k. s + k * c) [0..<(n - s + c - 1) div c]"
proof (induction s n c rule: py_range.induct)
  case (1 start stop step)
  show ?case
  proof (cases "stop \<le> start")
    case True
    with "1.prems" show ?thesis by (simp add: py_range.simps)
  next
    case False
    with "1.prems" have ih: "py_range (start + step) stop step =
        map (\<lambda>k. start + step + k * step) [0..<(stop - (start + step) + step - 1) div step]"
      using "1.IH" by simp
    define m where "m = (stop - (start + step) + step - 1) div step"
    have len: "(stop - start + step - 1) div step = Suc m"
    proof (cases "start + step \<le> stop")
      case True
      then have "stop - start + step - 1 = (stop - (start + step) + step - 1) + step"
        using "1.prems" by simp
      then have "(stop - start + step - 1) div step
                   = ((stop - (start + step) + step - 1) + step) div step"
        by (rule arg_cong)
      also have "\<dots> = Suc m"
        using "1.prems" unfolding m_def by (rule_tac div_add_self2 [THEN trans]) simp_all
      finally show ?thesis .
    next
      case b: False
      with False "1.prems" have "step \<le> stop - start + step - 1" "stop - start + step - 1 < 2 * step"
        by simp_all
      then have "(stop - start + step - 1) div step = 1"
        by (intro div_nat_eqI) simp_all
      moreover from b "1.prems" have "m = 0" by (simp add: m_def)
      ultimately show ?thesis by simp
    qed
    have "py_range start stop step = start # py_range (start + step) stop step"
      using False "1.prems" by (subst py_range.simps) simp
    also have "\<dots> = start # map (\<lambda>k. start + step + k * step) [0..<m]"
      using ih by (simp add: m_def)
    also have "\<dots> = map (\<lambda>k. start + k * step) [0..<Suc m]"
      by (simp add: upt_conv_Cons map_Suc_upt [symmetric] del: upt_Suc)
    finally show ?thesis using len by simp
  qed
qed


lemma id_chunks_map:
  "id_chunks ids = map (\<lambda>k. take 100 (drop (k * 100) ids)) [0..<(length ids + 99) div 100]"
  by (simp add: id_chunks_def FEATURE_BATCH_SIZE_def py_range_map slice_def o_def add.commute)

lemma id_chunks_Nil: "id_chunks [] = []"
  by (simp add: id_chunks_map)

lemma concat_chunks:
  "0 < c \<Longrightarrow> length xs \<le> m * c \<Longrightarrow> concat (map (\<lambda>k. take c (drop (k * c) xs)) [0..<m]) = xs"
proof (induction m arbitrary: xs rule: nat.induct)
  case zero
  then show ?case by simp
next
  case (Suc m)
  have "length (take (m * c) xs) \<le> m * c" by simp
  from Suc.IH [OF Suc.prems(1) this]
  have "concat (map (\<lambda>k. take c (drop (k * c) (take (m * c) xs))) [0..<m]) = take (m * c) xs" .
  moreover have "map (\<lambda>k. take c (drop (k * c) (take (m * c) xs))) [0..<m]
      = map (\<lambda>k. take c (drop (k * c) xs)) [0..<m]"
  proof (rule map_cong [OF refl])
    fix k assume "k \<in> set [0..<m]"
    then have "k < m" by simp
    then have "Suc k \<le> m" by simp
    then have "Suc k * c \<le> m * c" by (rule mult_le_mono1)
    then have "c \<le> m * c - k * c" by simp
    then show "take c (drop (k * c) (take (m * c) xs)) = take c (drop (k * c) xs)"
      by (simp add: drop_take min_absorb1)
  qed
  ultimately have "concat (map (\<lambda>k. take c (drop (k * c) xs)) [0..<m]) = take (m * c) xs"
    by simp
  moreover from Suc.prems have "take c (drop (m * c) xs) = drop (m * c) xs"
    by simp
  ultimately show ?case by simp
qed

lemma concat_id_chunks: "concat (id_chunks ids) = ids"
proof -
  have "(length ids + 99) mod 100 \<le> 99"
    by simp
  moreover have "((length ids + 99) div 100) * 100 + (length ids + 99) mod 100 = length ids + 99"
    by (rule div_mult_mod_eq)
  ultimately have "length ids \<le> ((length ids + 99) div 100) * 100"
    by linarith
  then show ?thesis
    unfolding id_chunks_map by (intro concat_chunks) simp_all
qed

lemma feature_requests_append:
  "feature_requests (es @ es') = feature_requests es @ feature_requests es'"
  by (induction es rule: feature_requests.induct) simp_all

lemma reported_errors_append:
  "reported_errors (es @ es') = reported_errors es @ reported_errors es'"
  by (induction es rule: reported_errors.induct) simp_all

lemma fetch_chunk_requests:
  "feature_requests (snd (fetch_chunk service out_fields n (i, chunk) st))
     = feature_requests (snd st) @ [chunk]"
  by (cases st) (simp add: fetch_chunk_def feature_requests_append split: response.splits)

lemma fetch_chunk_features:
  "fst (fetch_chunk service out_fields n (i, chunk) st)
     = fst st @ (case service i \<lparr> objectIds = chunk, outFields = out_fields \<rparr> of
                   Json (Some fs) \<Rightarrow> fs | _ \<Rightarrow> [])"
  by (cases st) (simp add: fetch_chunk_def split: response.splits option.splits)

lemma chunk_loop_requests:
  "feature_requests (snd (chunk_loop service out_fields n ics st))
     = feature_requests (snd st) @ map snd ics"
proof (induction ics arbitrary: st)
  case Nil
  then show ?case by simp
next
  case (Cons ic ics)
  obtain i chunk where "ic = (i, chunk)" by (cases ic)
  with Cons.IH show ?case by (simp add: fetch_chunk_requests)
qed

lemma chunk_loop_features:
  "fst (chunk_loop service out_fields n ics st)
     = fst st @ concat (map (\<lambda>(i, chunk).
         case service i \<lparr> objectIds = chunk, outFields = out_fields \<rparr> of
           Json (Some fs) \<Rightarrow> fs | _ \<Rightarrow> []) ics)"
proof (induction ics arbitrary: st)
  case Nil
  then show ?case by simp
next
  case (Cons ic ics)
  obtain i chunk where "ic = (i, chunk)" by (cases ic)
  with Cons.IH show ?case by (simp add: fetch_chunk_features)
qed

lemma get_features_by_ids_fst:
  "fc_features (fst (get_features_by_ids service ids out_fields))
    = fst (chunk_loop service out_fields (length (id_chunks ids)) (enumerate 0 (id_chunks ids)) ([], []))"
  by (simp add: get_features_by_ids_def split: prod.splits)

lemma get_features_by_ids_snd:
  "snd (get_features_by_ids service ids out_fields)
    = snd (chunk_loop service out_fields (length (id_chunks ids)) (enumerate 0 (id_chunks ids)) ([], []))"
  by (simp add: get_features_by_ids_def split: prod.splits)

lemma fetch_chunk_errors:
  "n \<noteq> 0 \<Longrightarrow> service i \<lparr> objectIds = chunk, outFields = out_fields \<rparr> = Json d \<Longrightarrow>
    reported_errors (snd (fetch_chunk service out_fields n (i, chunk) st)) = reported_errors (snd st)"
  by (cases st) (simp add: fetch_chunk_def reported_errors_append)

lemma chunk_loop_errors:
  "n \<noteq> 0 \<Longrightarrow> \<forall>i p. \<exists>d. service i p = Json d \<Longrightarrow>
    reported_errors (snd (chunk_loop service out_fields n ics st)) = reported_errors (snd st)"
proof (induction ics arbitrary: st)
  case Nil
  then show ?case by simp
next
  case (Cons ic ics)
  obtain i chunk where ic: "ic = (i, chunk)" by (cases ic)
  from Cons.prems obtain d where "service i \<lparr> objectIds = chunk, outFields = out_fields \<rparr> = Json d"
    by blast
  with Cons ic show ?case by (simp add: fetch_chunk_errors)
qed

lemma upt_3: "[0..<3] = [0, 1, 2]" by (simp add: upt_rec)
lemma upt_4: "[0..<4] = [0, 1, 2, 3]" by (simp add: upt_rec)

lemma id_chunks_250:
  "id_chunks (map int [0..<250]) = [map int [0..<100], map int [100..<200], map int [200..<250]]"
proof -
  have "(length (map int [0..<250]) + 99) div 100 = 3" by simp
  then have "id_chunks (map int [0..<250]) = map (\<lambda>k. take 100 (drop (k * 100) (map int [0..<250]))) [0, 1, 2]"
    unfolding id_chunks_map by (simp only: upt_3)
  then show ?thesis
    by (simp add: take_map drop_map del: upt_rec_numeral)
qed

text \<open>
  Claim C3.  For \<open>M\<close> identifiers and the chunk size \<^verbatim>\<open>FEATURE_BATCH_SIZE = 100\<close>,
  \<^verbatim>\<open>get_features_by_ids\<close> issues one feature request per chunk, whatever the
  service answers: there are \<open>ceil(M / 100)\<close> requests, each carries at most 100
  identifiers, the chunk number \<open>k\<close> is the contiguous slice that starts at position
  \<open>100 k\<close> (so no position is in two chunks), and the chunks concatenated are the
  input sequence.
\<close>

theorem chunking_partition:
  "feature_requests (snd (get_features_by_ids service object_ids out_fields)) = id_chunks object_ids
   \<and> length (id_chunks object_ids) = (length object_ids + FEATURE_BATCH_SIZE - 1) div FEATURE_BATCH_SIZE
   \<and> (\<forall>chunk \<in> set (id_chunks object_ids). length chunk \<le> FEATURE_BATCH_SIZE)
   \<and> (\<forall>k < length (id_chunks object_ids).
         id_chunks object_ids ! k
           = take FEATURE_BATCH_SIZE (drop (k * FEATURE_BATCH_SIZE) object_ids))
   \<and> concat (id_chunks object_ids) = object_ids
   \<and> FEATURE_BATCH_SIZE = 100"
proof -
  have "feature_requests (snd (get_features_by_ids service object_ids out_fields)) = id_chunks object_ids"
    by (simp add: get_features_by_ids_snd chunk_loop_requests)
  moreover have "length (id_chunks object_ids) = (length object_ids + FEATURE_BATCH_SIZE - 1) div FEATURE_BATCH_SIZE"
    by (simp add: id_chunks_map FEATURE_BATCH_SIZE_def)
  moreover have "\<forall>chunk \<in> set (id_chunks object_ids). length chunk \<le> FEATURE_BATCH_SIZE"
    by (auto simp: id_chunks_map FEATURE_BATCH_SIZE_def)
  moreover have "\<forall>k < length (id_chunks object_ids).
         id_chunks object_ids ! k
           = take FEATURE_BATCH_SIZE (drop (k * FEATURE_BATCH_SIZE) object_ids)"
    by (simp add: id_chunks_map FEATURE_BATCH_SIZE_def)
  ultimately show ?thesis
    by (simp add: concat_id_chunks FEATURE_BATCH_SIZE_def)
qed

theorem chunking_partition_witness:
  "feature_requests (snd (get_features_by_ids (\<lambda>i p. (RequestException :: nat list option response)) (map int [0..<250]) ''*''))
     = [map int [0..<100], map int [100..<200], map int [200..<250]]
   \<and> length (id_chunks (map int [0..<250])) = 3
   \<and> length (map int [200..<250]) \<le> FEATURE_BATCH_SIZE
   \<and> id_chunks (map int [0..<250]) ! 2
        = take FEATURE_BATCH_SIZE (drop (2 * FEATURE_BATCH_SIZE) (map int [0..<250]))
   \<and> concat (id_chunks (map int [0..<250])) = map int [0..<250]"
proof -
  note c = chunking_partition [of "\<lambda>i p. (RequestException :: nat list option response)"
      "map int [0..<250]" "''*''"]
  from c have "feature_requests (snd (get_features_by_ids
          (\<lambda>i p. (RequestException :: nat list option response)) (map int [0..<250]) ''*''))
       = id_chunks (map int [0..<250])
     \<and> concat (id_chunks (map int [0..<250])) = map int [0..<250]"
    by blast
  then have a: "feature_requests (snd (get_features_by_ids
          (\<lambda>i p. (RequestException :: nat list option response)) (map int [0..<250]) ''*''))
       = [map int [0..<100], map int [100..<200], map int [200..<250]]
     \<and> length (id_chunks (map int [0..<250])) = 3
     \<and> concat (id_chunks (map int [0..<250])) = map int [0..<250]"
    by (simp add: id_chunks_250 del: upt_rec_numeral)
  have "map int [200..<250] \<in> set (id_chunks (map int [0..<250]))"
    by (simp add: id_chunks_250 del: upt_rec_numeral)
  with c have b: "length (map int [200..<250]) \<le> FEATURE_BATCH_SIZE"
    by blast
  have "2 < length (id_chunks (map int [0..<250]))"
    by (simp add: id_chunks_250 del: upt_rec_numeral)
  with c have d: "id_chunks (map int [0..<250]) ! 2
        = take FEATURE_BATCH_SIZE (drop (2 * FEATURE_BATCH_SIZE) (map int [0..<250]))"
    by blast
  from a b d show ?thesis
    by blast
qed

text \<open>
  Claim C2.  A failed chunk request does not abort the retrieval.  For every
  service and identifier list, a request is issued for every chunk, and the
  returned collection is the concatenation, in chunk order, of the features of the
  chunks whose request delivered features; a chunk whose request raised contributes
  nothing.  For the service that fails exactly on the chunk indices in \<open>failing\<close>,
  the collection holds the features of the other chunks, in order.
\<close>

theorem failed_chunk_skipped:
  "fc_features (fst (get_features_by_ids service object_ids out_fields))
     = concat (map (\<lambda>(i, chunk).
         case service i \<lparr> objectIds = chunk, outFields = out_fields \<rparr> of
           Json (Some fs) \<Rightarrow> fs | _ \<Rightarrow> []) (enumerate 0 (id_chunks object_ids)))
   \<and> feature_requests (snd (get_features_by_ids service object_ids out_fields)) = id_chunks object_ids
   \<and> fc_features (fst (get_features_by_ids (flaky_service failing feats) object_ids out_fields))
     = concat (map (\<lambda>(i, chunk). if i \<in> failing then [] else feats chunk)
         (enumerate 0 (id_chunks object_ids)))"
proof -
  have "(\<lambda>(i, chunk). case flaky_service failing feats i \<lparr> objectIds = chunk, outFields = out_fields \<rparr> of
           Json (Some fs) \<Rightarrow> fs | _ \<Rightarrow> []) = (\<lambda>(i, chunk). if i \<in> failing then [] else feats chunk)"
    by (auto simp: flaky_service_def fun_eq_iff)
  then show ?thesis
  by (simp add: get_features_by_ids_fst get_features_by_ids_snd chunk_loop_features
       chunk_loop_requests)
qed

theorem failed_chunk_skipped_witness:
  "fc_features (fst (get_features_by_ids (flaky_service {1} (\<lambda>chunk. chunk)) (map int [0..<350]) ''*''))
     = map int [0..<100] @ map int [200..<300] @ map int [300..<350]"
proof -
  have "(length (map int [0..<350]) + 99) div 100 = 4" by simp
  then have "id_chunks (map int [0..<350]) = map (\<lambda>k. take 100 (drop (k * 100) (map int [0..<350]))) [0, 1, 2, 3]"
    unfolding id_chunks_map by (simp only: upt_4)
  then have "id_chunks (map int [0..<350])
          = [map int [0..<100], map int [100..<200], map int [200..<300], map int [300..<350]]"
    by (simp add: take_map drop_map del: upt_rec_numeral)
  with failed_chunk_skipped [of "flaky_service {1} (\<lambda>chunk. chunk)" "map int [0..<350]" "''*''" "{1}" "\<lambda>chunk. chunk"]
  show ?thesis by (simp add: flaky_service_def del: upt_rec_numeral)
qed

text \<open>
  Claim C10.  With an empty identifier list \<^verbatim>\<open>get_features_by_ids\<close> has no effect
  at all (no HTTP request, no progress update) and returns the collection with no
  features.  The division by the number of chunks never fails: against a service
  that answers every request, no error is reported for any identifier list, the
  ZeroDivisionError branch included.
\<close>

theorem empty_id_list_no_requests:
  "get_features_by_ids service [] out_fields
     = (\<lparr> fc_type = ''FeatureCollection'', fc_features = [] \<rparr>, [])
   \<and> ((\<forall>i p. \<exists>d. service i p = Json d) \<longrightarrow>
        reported_errors (snd (get_features_by_ids service object_ids out_fields)) = [])"
proof -
  have "get_features_by_ids service [] out_fields
     = (\<lparr> fc_type = ''FeatureCollection'', fc_features = [] \<rparr>, [])"
    by (simp add: get_features_by_ids_def id_chunks_Nil)
  moreover have "reported_errors (snd (get_features_by_ids service object_ids out_fields)) = []"
    if a: "\<forall>i p. \<exists>d. service i p = Json d"
  proof (cases "id_chunks object_ids = []")
    case True
    then show ?thesis by (simp add: get_features_by_ids_snd)
  next
    case False
    then have "length (id_chunks object_ids) \<noteq> 0" by simp
    from chunk_loop_errors [OF this a] show ?thesis
      by (simp add: get_features_by_ids_snd)
  qed
  ultimately show ?thesis by blast
qed

theorem empty_id_list_no_requests_witness:
  "reported_errors (snd (get_features_by_ids (\<lambda>i p. Json (Some (objectIds p))) [1, 2, 3] ''*'')) = []"
  using empty_id_list_no_requests [of "\<lambda>i p. Json (Some (objectIds p))" "''*''" "[1, 2, 3]"] by simp

section \<open>Properties of the paginated identifier fetcher\<close>

lemma id_request_offsets_append:
  "id_request_offsets (es @ es') = id_request_offsets es @ id_request_offsets es'"
  by (induction es rule: id_request_offsets.induct) simp_all

lemma loop_no_feature_requests:
  assumes "get_object_ids_loop service wc batch_size s = Some y"
  shows "feature_requests (snd y) = feature_requests (trace s)"
  using assms
proof (induction rule: get_object_ids_loop.raw_induct [rotated 1, consumes 1, case_names step])
  case (step loop service wc batch_size s y)
  from step.hyps show ?case
    by (auto simp: feature_requests_append split: response.splits option.splits if_splits
          dest!: step.IH)
qed

lemma loop_step_full:
  assumes "service (issued s) \<lparr> where_clause = wc, resultOffset = offset s,
              resultRecordCount = batch_size \<rparr> = Json (Some batch_ids)"
    and "batch_ids \<noteq> []" and "batch_size \<le> length batch_ids"
  shows "get_object_ids_loop service wc batch_size s =
         get_object_ids_loop service wc batch_size
                   \<lparr> all_object_ids = all_object_ids s @ batch_ids,
                     offset = offset s + length batch_ids,
                     batch_count = batch_count s + 1,
                     issued = issued s + 1,
                     trace = trace s @
                       [GetIds \<lparr> where_clause = wc, resultOffset = offset s,
                                 resultRecordCount = batch_size \<rparr>,
                        Sleep (courtesy_delay (batch_count s + 1))] \<rparr>"
  using assms by (subst get_object_ids_loop.simps) simp

lemma loop_step_last:
  assumes "service (issued s) \<lparr> where_clause = wc, resultOffset = offset s,
              resultRecordCount = batch_size \<rparr> = Json (Some batch_ids)"
    and "length batch_ids < batch_size"
  shows "get_object_ids_loop service wc batch_size s =
         Some (all_object_ids s @ batch_ids,
               trace s @ [GetIds \<lparr> where_clause = wc, resultOffset = offset s,
                                 resultRecordCount = batch_size \<rparr>])"
  using assms by (subst get_object_ids_loop.simps) simp

lemma loop_step_failure:
  assumes "service (issued s) \<lparr> where_clause = wc, resultOffset = offset s,
              resultRecordCount = batch_size \<rparr> = RequestException"
  shows "get_object_ids_loop service wc batch_size s =
         Some (all_object_ids s,
               trace s @ [GetIds \<lparr> where_clause = wc, resultOffset = offset s,
                                 resultRecordCount = batch_size \<rparr>,
                          StError (FetchIdsError (offset s))])"
  using assms by (subst get_object_ids_loop.simps) simp

lemma offsets_shift:
  "0 < b \<Longrightarrow> b \<le> n \<Longrightarrow>
    map (\<lambda>k. (o' :: nat) + k * b) [0..<n div b + 1] = o' # map (\<lambda>k. o' + b + k * b) [0..<(n - b) div b + 1]"
proof -
  assume a: "0 < b" "b \<le> n"
  then have "n div b = Suc ((n - b) div b)"
    by (simp add: le_div_geq)
  then have "[0..<n div b + 1] = 0 # map Suc [0..<(n - b) div b + 1]"
    by (simp add: upt_conv_Cons map_Suc_upt del: upt_Suc)
  then show ?thesis by (simp add: o_def add.assoc del: upt_Suc)
qed

lemma loop_paged:
  assumes "0 < batch_size"
  shows "\<exists>tr. get_object_ids_loop (paged_service ids) wc batch_size s
           = Some (all_object_ids s @ drop (offset s) ids, tr)
         \<and> id_request_offsets tr = id_request_offsets (trace s)
              @ map (\<lambda>k. offset s + k * batch_size) [0..<(length ids - offset s) div batch_size + 1]
         \<and> reported_errors tr = reported_errors (trace s)"
proof (induction "length ids - offset s" arbitrary: s rule: less_induct)
  case less
  let ?p = "\<lparr> where_clause = wc, resultOffset = offset s, resultRecordCount = batch_size \<rparr>"
  let ?page = "take batch_size (drop (offset s) ids)"
  have srv: "paged_service ids (issued s) ?p = Json (Some ?page)"
    by (simp add: paged_service_def)
  show ?case
  proof (cases "length ids - offset s < batch_size")
    case True
    then have short: "length ?page < batch_size" and page: "?page = drop (offset s) ids"
      by simp_all
    from True have "(length ids - offset s) div batch_size = 0"
      by simp
    with loop_step_last [where service = "paged_service ids" and s = s, OF srv short] page show ?thesis
      by (simp add: id_request_offsets_append reported_errors_append)
  next
    case False
    then have full: "batch_size \<le> length ?page" and len: "length ?page = batch_size"
      by simp_all
    with assms have ne: "?page \<noteq> []"
      by auto
    let ?s' = "\<lparr> all_object_ids = all_object_ids s @ ?page,
                 offset = offset s + length ?page,
                 batch_count = batch_count s + 1,
                 issued = issued s + 1,
                 trace = trace s @ [GetIds ?p, Sleep (courtesy_delay (batch_count s + 1))] \<rparr>"
    have step: "get_object_ids_loop (paged_service ids) wc batch_size s
                  = get_object_ids_loop (paged_service ids) wc batch_size ?s'"
      by (rule loop_step_full [where service = "paged_service ids" and s = s, OF srv ne full])
    have "length ids - offset ?s' < length ids - offset s"
      using False assms len by simp
    from less [OF this] obtain tr where
      r: "get_object_ids_loop (paged_service ids) wc batch_size ?s'
           = Some (all_object_ids ?s' @ drop (offset ?s') ids, tr)"
      and o: "id_request_offsets tr = id_request_offsets (trace ?s')
              @ map (\<lambda>k. offset ?s' + k * batch_size) [0..<(length ids - offset ?s') div batch_size + 1]"
      and e: "reported_errors tr = reported_errors (trace ?s')"
      by blast
    have "?page @ drop (offset s + batch_size) ids = drop (offset s) ids"
      by (metis add.commute append_take_drop_id drop_drop)
    with r len have r': "get_object_ids_loop (paged_service ids) wc batch_size ?s'
           = Some (all_object_ids s @ drop (offset s) ids, tr)"
      by simp
    from False assms have "map (\<lambda>k. offset s + k * batch_size) [0..<(length ids - offset s) div batch_size + 1]
       = offset s # map (\<lambda>k. offset s + batch_size + k * batch_size)
             [0..<(length ids - offset s - batch_size) div batch_size + 1]"
      by (intro offsets_shift) simp_all
    with o len have o': "id_request_offsets tr = id_request_offsets (trace s)
              @ map (\<lambda>k. offset s + k * batch_size) [0..<(length ids - offset s) div batch_size + 1]"
      by (simp add: id_request_offsets_append del: upt_Suc)
    from e have e': "reported_errors tr = reported_errors (trace s)"
      by (simp add: reported_errors_append)
    from step r' o' e' show ?thesis
      by simp
  qed
qed

lemma loop_failing:
  assumes "0 < batch_size" and "n * batch_size \<le> length ids"
    and "issued s \<le> n" and "offset s = issued s * batch_size"
  shows "\<exists>tr. get_object_ids_loop (failing_service ids n) wc batch_size s
           = Some (all_object_ids s @ take ((n - issued s) * batch_size) (drop (offset s) ids), tr)
         \<and> reported_errors tr = reported_errors (trace s) @ [FetchIdsError (n * batch_size)]"
  using assms(3,4)
proof (induction "n - issued s" arbitrary: s rule: less_induct)
  case less
  let ?p = "\<lparr> where_clause = wc, resultOffset = offset s, resultRecordCount = batch_size \<rparr>"
  show ?case
  proof (cases "issued s = n")
    case True
    then have "failing_service ids n (issued s) ?p = RequestException"
      by (simp add: failing_service_def)
    from loop_step_failure [where service = "failing_service ids n" and s = s, OF this] True less.prems
    show ?thesis
      by (simp add: reported_errors_append)
  next
    case False
    with less.prems have lt: "issued s < n" by simp
    let ?page = "take batch_size (drop (offset s) ids)"
    have srv: "failing_service ids n (issued s) ?p = Json (Some ?page)"
      using False by (simp add: failing_service_def paged_service_def)
    from lt have "Suc (issued s) * batch_size \<le> n * batch_size"
      by (intro mult_le_mono1) simp
    with assms(2) less.prems have room: "offset s + batch_size \<le> length ids"
      by simp
    then have len: "length ?page = batch_size"
      by simp
    with assms(1) have ne: "?page \<noteq> []"
      by auto
    from len have full: "batch_size \<le> length ?page"
      by simp
    let ?s' = "\<lparr> all_object_ids = all_object_ids s @ ?page,
                 offset = offset s + length ?page,
                 batch_count = batch_count s + 1,
                 issued = issued s + 1,
                 trace = trace s @ [GetIds ?p, Sleep (courtesy_delay (batch_count s + 1))] \<rparr>"
    have step: "get_object_ids_loop (failing_service ids n) wc batch_size s
                  = get_object_ids_loop (failing_service ids n) wc batch_size ?s'"
      by (rule loop_step_full [where service = "failing_service ids n" and s = s, OF srv ne full])
    have m: "n - issued ?s' < n - issued s" using lt by simp
    have i: "issued ?s' \<le> n" using lt by simp
    have o: "offset ?s' = issued ?s' * batch_size" using less.prems len by simp
    from less.hyps [OF m i o] obtain tr where
      r: "get_object_ids_loop (failing_service ids n) wc batch_size ?s'
           = Some (all_object_ids ?s' @ take ((n - issued ?s') * batch_size) (drop (offset ?s') ids), tr)"
      and e: "reported_errors tr = reported_errors (trace ?s') @ [FetchIdsError (n * batch_size)]"
      by blast
    from lt have "n - issued s = Suc (n - Suc (issued s))"
      by simp
    then have "(n - issued s) * batch_size = batch_size + (n - Suc (issued s)) * batch_size"
      by (simp only: mult_Suc)
    then have "take ((n - issued s) * batch_size) (drop (offset s) ids)
         = ?page @ take ((n - Suc (issued s)) * batch_size) (drop (offset s + batch_size) ids)"
      by (simp add: take_add add.commute)
    with r len have "get_object_ids_loop (failing_service ids n) wc batch_size ?s'
           = Some (all_object_ids s @ take ((n - issued s) * batch_size) (drop (offset s) ids), tr)"
      by simp
    moreover from e have "reported_errors tr = reported_errors (trace s) @ [FetchIdsError (n * batch_size)]"
      by (simp add: reported_errors_append)
    ultimately show ?thesis using step by simp
  qed
qed

text \<open>
  Claim C1.  Against a service that holds \<open>N\<close> identifiers and serves them in pages
  of the requested size \<open>B > 0\<close>, \<^verbatim>\<open>get_object_ids\<close> returns and its result is
  exactly the \<open>N\<close> identifiers in order.  The requests are issued at the offsets
  \<open>0, B, 2 B, \<dots>\<close>, each of which is the number of identifiers received so far; there
  are \<open>N / B + 1\<close> of them when \<open>N\<close> is a multiple of \<open>B\<close> (the last page is empty)
  and \<open>ceil(N / B)\<close> otherwise (the last page is short); no offset is requested twice
  and the page of the last request is short or empty.  For any service, a page that
  does not end the loop advances the offset by the number of identifiers in it.
\<close>

theorem pagination_complete:
  assumes "0 < batch_size"
  shows "(\<exists>tr. get_object_ids (paged_service ids) wc batch_size = Some (ids, tr)
     \<and> id_request_offsets tr = map (\<lambda>k. k * batch_size) [0..<length ids div batch_size + 1]
     \<and> length (id_request_offsets tr)
          = (if length ids mod batch_size = 0 then length ids div batch_size + 1
             else (length ids + batch_size - 1) div batch_size)
     \<and> distinct (id_request_offsets tr)
     \<and> length (take batch_size (drop (last (id_request_offsets tr)) ids)) < batch_size)
   \<and> (service (issued s) \<lparr> where_clause = wc, resultOffset = offset s,
              resultRecordCount = batch_size \<rparr> = Json (Some batch_ids)
        \<and> batch_ids \<noteq> [] \<and> batch_size \<le> length batch_ids
        \<longrightarrow> get_object_ids_loop service wc batch_size s =
            get_object_ids_loop service wc batch_size
              \<lparr> all_object_ids = all_object_ids s @ batch_ids,
                offset = offset s + length batch_ids,
                batch_count = batch_count s + 1,
                issued = issued s + 1,
                trace = trace s @
                  [GetIds \<lparr> where_clause = wc, resultOffset = offset s,
                            resultRecordCount = batch_size \<rparr>,
                   Sleep (courtesy_delay (batch_count s + 1))] \<rparr>)"
proof -
  from loop_paged [OF assms, of ids wc
      "\<lparr> all_object_ids = [], offset = 0, batch_count = 0, issued = 0, trace = [] \<rparr>"]
  obtain tr where r0: "get_object_ids_loop (paged_service ids) wc batch_size
        \<lparr> all_object_ids = [], offset = 0, batch_count = 0, issued = 0, trace = [] \<rparr>
       = Some (all_object_ids \<lparr> all_object_ids = [], offset = 0, batch_count = 0, issued = 0, trace = [] \<rparr>
            @ drop (offset \<lparr> all_object_ids = [], offset = 0, batch_count = 0, issued = 0, trace = [] \<rparr>) ids, tr)"
    and o0: "id_request_offsets tr = id_request_offsets (trace \<lparr> all_object_ids = [], offset = 0, batch_count = 0, issued = 0, trace = [] \<rparr>)
              @ map (\<lambda>k. offset \<lparr> all_object_ids = [], offset = 0, batch_count = 0, issued = 0, trace = [] \<rparr> + k * batch_size)
                 [0..<(length ids - offset \<lparr> all_object_ids = [], offset = 0, batch_count = 0, issued = 0, trace = [] \<rparr>) div batch_size + 1]"
    by blast
  from r0 have r: "get_object_ids (paged_service ids) wc batch_size = Some (ids, tr)"
    by (simp add: get_object_ids_def)
  from o0 have o: "id_request_offsets tr = map (\<lambda>k. k * batch_size) [0..<length ids div batch_size + 1]"
    by (simp del: upt_Suc)
  have cnt: "length ids div batch_size + 1
          = (if length ids mod batch_size = 0 then length ids div batch_size + 1
             else (length ids + batch_size - 1) div batch_size)"
  proof (cases "length ids mod batch_size = 0")
    case True
    then show ?thesis by simp
  next
    case False
    then have pos: "0 < length ids mod batch_size" by simp
    define q where "q = length ids div batch_size"
    define r where "r = length ids mod batch_size"
    have split: "length ids = q * batch_size + r"
      unfolding q_def r_def by simp
    from pos have r1: "r = Suc (r - 1)"
      unfolding r_def by simp
    have "length ids + batch_size - 1 = q * batch_size + Suc (r - 1) + batch_size - 1"
      using split r1 by simp
    also have "\<dots> = (q + 1) * batch_size + (r - 1)"
      by simp
    finally have eq: "length ids + batch_size - 1 = (q + 1) * batch_size + (r - 1)" .
    have "r < batch_size"
      unfolding r_def using assms by simp
    then have "r - 1 < batch_size"
      by simp
    with eq have "(length ids + batch_size - 1) div batch_size = q + 1"
      by (intro div_nat_eqI) simp_all
    then have "(length ids + batch_size - 1) div batch_size = length ids div batch_size + 1"
      by (simp only: q_def)
    with False show ?thesis by simp
  qed
  have inj: "inj_on (\<lambda>k. k * batch_size) (set [0..<length ids div batch_size + 1])"
    using assms by (intro inj_onI) simp
  have dist: "distinct (id_request_offsets tr)"
    unfolding o by (simp only: distinct_map distinct_upt inj simp_thms)
  have "[0..<length ids div batch_size + 1] = [0..<length ids div batch_size] @ [length ids div batch_size]"
    by simp
  then have lst: "last (id_request_offsets tr) = (length ids div batch_size) * batch_size"
    unfolding o by (simp only: map_append last_snoc list.map)
  have "length ids - (length ids div batch_size) * batch_size = length ids mod batch_size"
    by (simp add: minus_div_mult_eq_mod)
  then have "length (drop (last (id_request_offsets tr)) ids) < batch_size"
    using assms lst by simp
  then have short: "length (take batch_size (drop (last (id_request_offsets tr)) ids)) < batch_size"
    by simp
  have len: "length (id_request_offsets tr) = length ids div batch_size + 1"
    unfolding o by (simp del: upt_Suc)
  have complete: "\<exists>tr. get_object_ids (paged_service ids) wc batch_size = Some (ids, tr)
     \<and> id_request_offsets tr = map (\<lambda>k. k * batch_size) [0..<length ids div batch_size + 1]
     \<and> length (id_request_offsets tr)
          = (if length ids mod batch_size = 0 then length ids div batch_size + 1
             else (length ids + batch_size - 1) div batch_size)
     \<and> distinct (id_request_offsets tr)
     \<and> length (take batch_size (drop (last (id_request_offsets tr)) ids)) < batch_size"
  proof (intro exI [of _ tr] conjI)
    show "get_object_ids (paged_service ids) wc batch_size = Some (ids, tr)"
      by (rule r)
    show "id_request_offsets tr = map (\<lambda>k. k * batch_size) [0..<length ids div batch_size + 1]"
      by (rule o)
    show "length (id_request_offsets tr)
          = (if length ids mod batch_size = 0 then length ids div batch_size + 1
             else (length ids + batch_size - 1) div batch_size)"
      using len cnt by (rule trans)
    show "distinct (id_request_offsets tr)"
      by (rule dist)
    show "length (take batch_size (drop (last (id_request_offsets tr)) ids)) < batch_size"
      by (rule short)
  qed
  show ?thesis
  proof (intro conjI impI)
    show "\<exists>tr. get_object_ids (paged_service ids) wc batch_size = Some (ids, tr)
     \<and> id_request_offsets tr = map (\<lambda>k. k * batch_size) [0..<length ids div batch_size + 1]
     \<and> length (id_request_offsets tr)
          = (if length ids mod batch_size = 0 then length ids div batch_size + 1
             else (length ids + batch_size - 1) div batch_size)
     \<and> distinct (id_request_offsets tr)
     \<and> length (take batch_size (drop (last (id_request_offsets tr)) ids)) < batch_size"
      by (rule complete)
  next
    assume a: "service (issued s) \<lparr> where_clause = wc, resultOffset = offset s,
              resultRecordCount = batch_size \<rparr> = Json (Some batch_ids)
        \<and> batch_ids \<noteq> [] \<and> batch_size \<le> length batch_ids"
    then have a1: "service (issued s) \<lparr> where_clause = wc, resultOffset = offset s,
              resultRecordCount = batch_size \<rparr> = Json (Some batch_ids)"
      and a2: "batch_ids \<noteq> []" and a3: "batch_size \<le> length batch_ids"
      by simp_all
    show "get_object_ids_loop service wc batch_size s =
            get_object_ids_loop service wc batch_size
              \<lparr> all_object_ids = all_object_ids s @ batch_ids,
                offset = offset s + length batch_ids,
                batch_count = batch_count s + 1,
                issued = issued s + 1,
                trace = trace s @
                  [GetIds \<lparr> where_clause = wc, resultOffset = offset s,
                            resultRecordCount = batch_size \<rparr>,
                   Sleep (courtesy_delay (batch_count s + 1))] \<rparr>"
      by (rule loop_step_full [where service = service and s = s, OF a1 a2 a3])
  qed
qed

theorem pagination_complete_witness:
  "(\<exists>tr. get_object_ids (paged_service [10, 20, 30, 40]) ''1=1'' 2 = Some ([10, 20, 30, 40], tr)
      \<and> id_request_offsets tr = [0, 2, 4] \<and> length (id_request_offsets tr) = 4 div 2 + 1)
   \<and> get_object_ids_loop (paged_service [10, 20, 30, 40]) ''1=1'' 2
        \<lparr> all_object_ids = [], offset = 0, batch_count = 0, issued = 0, trace = [] \<rparr>
     = get_object_ids_loop (paged_service [10, 20, 30, 40]) ''1=1'' 2
        \<lparr> all_object_ids = [10, 20], offset = 2, batch_count = 1, issued = 1,
          trace = [GetIds \<lparr> where_clause = ''1=1'', resultOffset = 0, resultRecordCount = 2 \<rparr>,
                   Sleep 1] \<rparr>"
proof -
  let ?s0 = "\<lparr> all_object_ids = [], offset = 0, batch_count = 0, issued = 0, trace = [] \<rparr>"
  have h: "0 < (2::nat)"
    by simp
  have page: "paged_service [10, 20, 30, 40] (issued ?s0)
        \<lparr> where_clause = ''1=1'', resultOffset = offset ?s0, resultRecordCount = 2 \<rparr>
          = Json (Some [10, 20])
      \<and> [10, 20] \<noteq> ([] :: int list) \<and> 2 \<le> length [10, 20 :: int]"
    by (simp add: paged_service_def)
  note c = pagination_complete [OF h, of "[10, 20, 30, 40]" "''1=1''"
      "paged_service [10, 20, 30, 40]" ?s0 "[10, 20]"]
  from c have "\<exists>tr. get_object_ids (paged_service [10, 20, 30, 40]) ''1=1'' 2
        = Some ([10, 20, 30, 40], tr)
      \<and> id_request_offsets tr = map (\<lambda>k. k * 2) [0..<length [10, 20, 30, 40 :: int] div 2 + 1]"
    by blast
  then have first: "\<exists>tr. get_object_ids (paged_service [10, 20, 30, 40]) ''1=1'' 2
        = Some ([10, 20, 30, 40], tr)
      \<and> id_request_offsets tr = [0, 2, 4] \<and> length (id_request_offsets tr) = 4 div 2 + 1"
    by (auto simp: upt_rec)
  from c page have "get_object_ids_loop (paged_service [10, 20, 30, 40]) ''1=1'' 2 ?s0
     = get_object_ids_loop (paged_service [10, 20, 30, 40]) ''1=1'' 2
         \<lparr> all_object_ids = all_object_ids ?s0 @ [10, 20],
           offset = offset ?s0 + length [10, 20 :: int],
           batch_count = batch_count ?s0 + 1,
           issued = issued ?s0 + 1,
           trace = trace ?s0 @
             [GetIds \<lparr> where_clause = ''1=1'', resultOffset = offset ?s0,
                       resultRecordCount = 2 \<rparr>,
              Sleep (courtesy_delay (batch_count ?s0 + 1))] \<rparr>"
    by blast
  moreover have "\<lparr> all_object_ids = all_object_ids ?s0 @ [10, 20],
           offset = offset ?s0 + length [10, 20 :: int],
           batch_count = batch_count ?s0 + 1,
           issued = issued ?s0 + 1,
           trace = trace ?s0 @
             [GetIds \<lparr> where_clause = ''1=1'', resultOffset = offset ?s0,
                       resultRecordCount = 2 \<rparr>,
              Sleep (courtesy_delay (batch_count ?s0 + 1))] \<rparr>
      = \<lparr> all_object_ids = [10, 20], offset = 2, batch_count = 1, issued = 1,
          trace = [GetIds \<lparr> where_clause = ''1=1'', resultOffset = 0, resultRecordCount = 2 \<rparr>,
                   Sleep 1] \<rparr>"
    by (simp add: courtesy_delay_def)
  ultimately have second: "get_object_ids_loop (paged_service [10, 20, 30, 40]) ''1=1'' 2 ?s0
     = get_object_ids_loop (paged_service [10, 20, 30, 40]) ''1=1'' 2
        \<lparr> all_object_ids = [10, 20], offset = 2, batch_count = 1, issued = 1,
          trace = [GetIds \<lparr> where_clause = ''1=1'', resultOffset = 0, resultRecordCount = 2 \<rparr>,
                   Sleep 1] \<rparr>"
    by (rule trans [OF _ arg_cong])
  from first second show ?thesis
    by (rule conjI)
qed

text \<open>
  Claim C4, as stated: the partial result of a pagination cut by a transport
  failure is never returned indistinguishably from a complete result.  It is: the
  first service holds five identifiers and fails at its second request, the second
  service holds two identifiers and never fails, and both calls return \<open>[1, 2]\<close>.
\<close>

theorem transport_failure_marked_counterexample:
  "map_option fst (get_object_ids (failing_service [1, 2, 3, 4, 5] 1) ''1=1'' 2) = Some [1, 2]
   \<and> map_option fst (get_object_ids (paged_service [1, 2]) ''1=1'' 2) = Some [1, 2]"
  by (simp add: get_object_ids_def get_object_ids_loop.simps failing_service_def paged_service_def)

text \<open>
  Claim C4, amended.  A transport failure at any request ends the loop at once:
  \<^verbatim>\<open>get_object_ids\<close> returns the identifiers accumulated before the failure and
  reports the failure with \<^verbatim>\<open>st.error\<close>.  The returned list carries no mark: when
  the request number \<open>n\<close> fails, the call returns the first \<open>n B\<close> identifiers, which
  is also what a complete run against a service holding only these identifiers
  returns; the two runs differ in the reported error alone.
\<close>

theorem transport_failure_returns_partial:
  assumes "0 < batch_size" and "n * batch_size \<le> length ids"
  shows "(service (issued s) \<lparr> where_clause = wc, resultOffset = offset s,
              resultRecordCount = batch_size \<rparr> = RequestException
          \<longrightarrow> get_object_ids_loop service wc batch_size s
              = Some (all_object_ids s,
                      trace s @ [GetIds \<lparr> where_clause = wc, resultOffset = offset s,
                                   resultRecordCount = batch_size \<rparr>,
                                 StError (FetchIdsError (offset s))]))
     \<and> (\<exists>tr tr'.
           get_object_ids (failing_service ids n) wc batch_size = Some (take (n * batch_size) ids, tr)
         \<and> reported_errors tr = [FetchIdsError (n * batch_size)]
         \<and> get_object_ids (paged_service (take (n * batch_size) ids)) wc batch_size
              = Some (take (n * batch_size) ids, tr')
         \<and> reported_errors tr' = [])"
proof (intro conjI impI)
  assume "service (issued s) \<lparr> where_clause = wc, resultOffset = offset s,
              resultRecordCount = batch_size \<rparr> = RequestException"
  then show "get_object_ids_loop service wc batch_size s
              = Some (all_object_ids s,
                      trace s @ [GetIds \<lparr> where_clause = wc, resultOffset = offset s,
                                   resultRecordCount = batch_size \<rparr>,
                                 StError (FetchIdsError (offset s))])"
    by (rule loop_step_failure)
next
  let ?s0 = "\<lparr> all_object_ids = [], offset = 0, batch_count = 0, issued = 0, trace = [] \<rparr>"
  have "issued ?s0 \<le> n" and "offset ?s0 = issued ?s0 * batch_size"
    by simp_all
  from loop_failing [OF assms this, of wc] obtain tr where
    f: "get_object_ids (failing_service ids n) wc batch_size = Some (take (n * batch_size) ids, tr)"
    and fe: "reported_errors tr = [FetchIdsError (n * batch_size)]"
    by (auto simp: get_object_ids_def)
  from loop_paged [OF assms(1), of "take (n * batch_size) ids" wc ?s0] obtain tr' where
    p: "get_object_ids (paged_service (take (n * batch_size) ids)) wc batch_size
              = Some (take (n * batch_size) ids, tr')"
    and pe: "reported_errors tr' = []"
    by (auto simp: get_object_ids_def)
  from f fe p pe show "\<exists>tr tr'.
           get_object_ids (failing_service ids n) wc batch_size = Some (take (n * batch_size) ids, tr)
         \<and> reported_errors tr = [FetchIdsError (n * batch_size)]
         \<and> get_object_ids (paged_service (take (n * batch_size) ids)) wc batch_size
              = Some (take (n * batch_size) ids, tr')
         \<and> reported_errors tr' = []"
    by blast
qed

theorem transport_failure_returns_partial_witness:
  "get_object_ids_loop (failing_service [1, 2, 3, 4, 5] 1) ''1=1'' 2
        \<lparr> all_object_ids = [1, 2], offset = 2, batch_count = 1, issued = 1, trace = [] \<rparr>
     = Some ([1, 2], [GetIds \<lparr> where_clause = ''1=1'', resultOffset = 2, resultRecordCount = 2 \<rparr>,
                      StError (FetchIdsError 2)])
   \<and> (\<exists>tr tr'. get_object_ids (failing_service [1, 2, 3, 4, 5] 1) ''1=1'' 2 = Some ([1, 2], tr)
         \<and> reported_errors tr = [FetchIdsError 2]
         \<and> get_object_ids (paged_service [1, 2]) ''1=1'' 2 = Some ([1, 2], tr')
         \<and> reported_errors tr' = [])"
  using transport_failure_returns_partial [of 2 1 "[1, 2, 3, 4, 5]" "failing_service [1, 2, 3, 4, 5] 1"
      "\<lparr> all_object_ids = [1, 2], offset = 2, batch_count = 1, issued = 1, trace = [] \<rparr>" "''1=1''"]
  by (simp add: failing_service_def)

section \<open>Properties of the retrieval orchestration\<close>

text \<open>
  Claim C6, as stated: when the identifier phase returns no identifier, the result
  handed onward is an empty FeatureCollection.  It is not: with nothing cached the
  handler hands on \<^verbatim>\<open>None\<close>.
\<close>

theorem empty_ids_empty_collection_counterexample:
  "map_option (\<lambda>r. fst (snd r))
      (load_madison_tree_data (paged_service []) (\<lambda>i p. Json (Some [0::nat]))
         \<lparr> geojson_data_entry = None \<rparr>) = Some None
   \<and> map_option (\<lambda>r. fst (snd r))
      (load_madison_tree_data (paged_service []) (\<lambda>i p. Json (Some [0::nat]))
         \<lparr> geojson_data_entry = None \<rparr>)
      \<noteq> Some (Some \<lparr> fc_type = ''FeatureCollection'', fc_features = [] \<rparr>)"
  by (simp add: load_madison_tree_data_def get_object_ids_def get_object_ids_loop.simps
        paged_service_def OBJECT_ID_BATCH_SIZE_def)

text \<open>
  Claim C6, amended.  When the identifier phase returns no identifier, both
  handlers show the warning and stop: no feature request is issued, the session
  state is unchanged, and the data handed onward is the collection cached before
  (\<^verbatim>\<open>None\<close> when there is none), not a new empty collection.
\<close>

theorem empty_ids_short_circuit:
  assumes "get_object_ids id_service ''1=1'' OBJECT_ID_BATCH_SIZE = Some ([], tr1)"
  shows "load_madison_tree_data id_service feature_service session
           = Some (session, geojson_data_entry session, tr1 @ [StWarning NoObjectIdsFound])
     \<and> load_madison_tree_data_alt id_service feature_service session
           = Some (session, geojson_data_entry session, tr1 @ [StWarning NoObjectIdsFound])
     \<and> feature_requests (tr1 @ [StWarning NoObjectIdsFound]) = []"
proof -
  from assms have "feature_requests (snd ([] :: int list, tr1)) =
      feature_requests (trace \<lparr> all_object_ids = [], offset = 0, batch_count = 0, issued = 0, trace = [] \<rparr>)"
    unfolding get_object_ids_def by (rule loop_no_feature_requests)
  then have "feature_requests tr1 = []"
    by simp
  with assms show ?thesis
    by (simp add: load_madison_tree_data_def load_madison_tree_data_alt_def feature_requests_append
          split: option.splits)
qed

theorem empty_ids_short_circuit_witness:
  "load_madison_tree_data (paged_service []) (\<lambda>i p. Json (Some [0::nat]))
       \<lparr> geojson_data_entry = Some \<lparr> fc_type = ''FeatureCollection'', fc_features = [7] \<rparr> \<rparr>
     = Some (\<lparr> geojson_data_entry = Some \<lparr> fc_type = ''FeatureCollection'', fc_features = [7] \<rparr> \<rparr>,
             Some \<lparr> fc_type = ''FeatureCollection'', fc_features = [7] \<rparr>,
             [GetIds \<lparr> where_clause = ''1=1'', resultOffset = 0, resultRecordCount = 1000 \<rparr>,
              StWarning NoObjectIdsFound])"
proof -
  have h: "get_object_ids (paged_service []) ''1=1'' OBJECT_ID_BATCH_SIZE
     = Some ([], [GetIds \<lparr> where_clause = ''1=1'', resultOffset = 0, resultRecordCount = 1000 \<rparr>])"
    by (simp add: get_object_ids_def get_object_ids_loop.simps paged_service_def OBJECT_ID_BATCH_SIZE_def)
  from empty_ids_short_circuit [OF h, of "\<lambda>i p. Json (Some [0::nat])"
      "\<lparr> geojson_data_entry = Some \<lparr> fc_type = ''FeatureCollection'', fc_features = [7] \<rparr> \<rparr>"]
  show ?thesis
    by simp
qed

end
